theory Spec2Isabelle
  imports Complex_Main "HOL-Library.Sublist" "HOL-Library.Multiset" "HOL-Library.Word"
begin

section \<open>Error classification (src/core/errors.ts)\<close>

text \<open>
  The closed set of error codes of \<^verbatim>\<open>ErrorCode\<close> and the \<^verbatim>\<open>AppError\<close> class.
  The \<^verbatim>\<open>details\<close> payload is opaque to every function modelled here and is left out.
\<close>

datatype ErrorCode =
    AUTHORIZATION_FAILED
  | NOT_FOUND
  | RATE_LIMITED
  | CANVAS_UNAVAILABLE
  | BAD_REQUEST
  | UNKNOWN

record AppError =
  code :: ErrorCode
  message :: string
  httpStatus :: int
  requestId :: "string option"
  canvasStatus :: "int option"

text \<open>The two lookup tables, keyed by the upstream status.\<close>

definition STATUS_TO_CODE :: "int \<rightharpoonup> ErrorCode" where
  "STATUS_TO_CODE = [400 \<mapsto> BAD_REQUEST, 401 \<mapsto> AUTHORIZATION_FAILED,
     403 \<mapsto> AUTHORIZATION_FAILED, 404 \<mapsto> NOT_FOUND, 429 \<mapsto> RATE_LIMITED]"

definition STATUS_TO_MESSAGE :: "int \<rightharpoonup> string" where
  "STATUS_TO_MESSAGE = [400 \<mapsto> ''Invalid request sent to Canvas.'',
     401 \<mapsto> ''Authorization failed: check Canvas token/scopes.'',
     403 \<mapsto> ''Authorization failed: check Canvas token/scopes.'',
     404 \<mapsto> ''Not found: course or assignment id.'',
     429 \<mapsto> ''Rate limited by Canvas; retry later.'']"

text \<open>
  \<^verbatim>\<open>canvasError(status, requestId, fallbackMessage)\<close>: \<^verbatim>\<open>a ?? b\<close> is \<open>b\<close> exactly when
  \<open>a\<close> is missing, which is \<open>None\<close> here.
\<close>

definition canvasError :: "int \<Rightarrow> string option \<Rightarrow> string option \<Rightarrow> AppError" where
  "canvasError status rid fallbackMessage =
     (let code0 = (case STATUS_TO_CODE status of Some c \<Rightarrow> c | None \<Rightarrow> CANVAS_UNAVAILABLE);
          httpStatus0 = status;
          httpStatus1 = (if status \<ge> 500 then 503 else httpStatus0);
          httpStatus2 = (if code0 = CANVAS_UNAVAILABLE then 503 else httpStatus1);
          message0 = (case STATUS_TO_MESSAGE status of Some m \<Rightarrow> m
                      | None \<Rightarrow> ''Canvas temporarily unavailable.'')
      in \<lparr> code = code0,
           message = (case fallbackMessage of Some m \<Rightarrow> m | None \<Rightarrow> message0),
           httpStatus = httpStatus2,
           requestId = rid,
           canvasStatus = Some status \<rparr>)"

definition unknownError :: "string \<Rightarrow> AppError" where
  "unknownError msg =
     \<lparr> code = UNKNOWN, message = msg, httpStatus = 500, requestId = None, canvasStatus = None \<rparr>"

section \<open>JavaScript values used by the tools\<close>

text \<open>
  A JavaScript number as far as the tools distinguish it: a finite value, the two
  infinities, or NaN. Subtraction follows IEEE 754 on these cases.
\<close>

datatype 'a jsnum = Num 'a | PosInf | NegInf | NaN

fun jsSub :: "int jsnum \<Rightarrow> int jsnum \<Rightarrow> int jsnum" where
  "jsSub NaN _ = NaN"
| "jsSub _ NaN = NaN"
| "jsSub (Num a) (Num b) = Num (a - b)"
| "jsSub (Num a) PosInf = NegInf"
| "jsSub (Num a) NegInf = PosInf"
| "jsSub PosInf (Num b) = PosInf"
| "jsSub PosInf PosInf = NaN"
| "jsSub PosInf NegInf = PosInf"
| "jsSub NegInf (Num b) = NegInf"
| "jsSub NegInf PosInf = NegInf"
| "jsSub NegInf NegInf = NaN"

text \<open>\<^verbatim>\<open>v > 0\<close> on a number; false for NaN.\<close>

fun jsPositive :: "int jsnum \<Rightarrow> bool" where
  "jsPositive (Num x) = (x > 0)"
| "jsPositive PosInf = True"
| "jsPositive NegInf = False"
| "jsPositive NaN = False"

text \<open>\<^verbatim>\<open>a <= b\<close> on numbers; false as soon as one side is NaN.\<close>

fun jsLe :: "int jsnum \<Rightarrow> int jsnum \<Rightarrow> bool" where
  "jsLe NaN _ = False"
| "jsLe _ NaN = False"
| "jsLe (Num a) (Num b) = (a \<le> b)"
| "jsLe NegInf _ = True"
| "jsLe _ PosInf = True"
| "jsLe PosInf _ = False"
| "jsLe _ NegInf = False"

text \<open>
  Outside the course mapping strings are byte strings; \<^verbatim>\<open>toLowerCase\<close> is modelled on
  the ASCII letters and \<^verbatim>\<open>includes\<close> as substring search.
\<close>

definition toLowerChar :: "char \<Rightarrow> char" where
  "toLowerChar c =
     (case map_of (zip ''ABCDEFGHIJKLMNOPQRSTUVWXYZ'' ''abcdefghijklmnopqrstuvwxyz'') c of
        Some l \<Rightarrow> l | None \<Rightarrow> c)"

definition toLowerCase :: "string \<Rightarrow> string" where
  "toLowerCase s = map toLowerChar s"

primrec stringIncludes :: "string \<Rightarrow> string \<Rightarrow> bool" where
  "stringIncludes [] keyword = (keyword = [])"
| "stringIncludes (c # cs) keyword = (prefix keyword (c # cs) \<or> stringIncludes cs keyword)"

definition isDigit :: "char \<Rightarrow> bool" where
  "isDigit c = (c \<in> set ''0123456789'')"

definition digitValue :: "char \<Rightarrow> int" where
  "digitValue c = int (length (takeWhile (\<lambda>d. d \<noteq> c) ''0123456789''))"

section \<open>Upstream course records and their mapping (canvas/types.ts, mcp/mappers.ts)\<close>

text \<open>
  The strings of a course record are sequences of UTF-16 code units, as JavaScript has them.
  \<^verbatim>\<open>String.prototype.trim\<close> removes the leading and the trailing code units that are
  \<^verbatim>\<open>WhiteSpace\<close> or \<^verbatim>\<open>LineTerminator\<close> of ECMA-262: TAB, LF, VT, FF, CR, the byte order
  mark U+FEFF, the separators U+2028 and U+2029, and the space separators of Unicode (U+0020,
  U+00A0, U+1680, U+2000 to U+200A, U+202F, U+205F, U+3000). All of them are single code
  units.
\<close>

type_synonym codeUnit = "16 word"

type_synonym jsString = "codeUnit list"

definition isWhiteSpace :: "codeUnit \<Rightarrow> bool" where
  "isWhiteSpace c =
     (c \<in> set [0x0009, 0x000A, 0x000B, 0x000C, 0x000D, 0x0020, 0x00A0, 0x1680, 0x2028, 0x2029,
                0x202F, 0x205F, 0x3000, 0xFEFF]
      \<or> (0x2000 \<le> c \<and> c \<le> 0x200A))"

definition trim :: "jsString \<Rightarrow> jsString" where
  "trim s = rev (dropWhile isWhiteSpace (rev (dropWhile isWhiteSpace s)))"

text \<open>The code units of a string literal of the source, which is ASCII.\<close>

definition utf16 :: "string \<Rightarrow> jsString" where
  "utf16 s = map (\<lambda>c. of_nat (of_char c)) s"

text \<open>
  The records are parametric in the type of their strings: the course mapping reads them
  code unit by code unit, the recency ranking is modelled on byte strings.
\<close>

record 's CanvasTerm =
  term_id :: int
  term_name :: "'s option"

record 's CanvasCourse =
  raw_id :: int
  raw_name :: "'s option"
  raw_course_code :: "'s option"
  raw_term :: "'s CanvasTerm option"

text \<open>The \<^verbatim>\<open>Course\<close> of mcp/schemas.ts.\<close>

record 's Course =
  course_id :: int
  course_name :: 's
  course_term :: 's
  course_code :: 's

text \<open>\<^verbatim>\<open>normalizeTerm(term) = term?.trim() ?? ''\<close>.\<close>

definition normalizeTerm :: "jsString option \<Rightarrow> jsString" where
  "normalizeTerm t = (case t of Some s \<Rightarrow> trim s | None \<Rightarrow> [])"

text \<open>
  \<^verbatim>\<open>mapCourse\<close>. \<^verbatim>\<open>a || b\<close> on strings is \<open>b\<close> exactly when \<open>a\<close> is empty; a name or code
  that is not a string (missing or null) is \<open>None\<close>. The conversion of the id inside the
  template literals, \<^verbatim>\<open>Number::toString\<close>, is the parameter \<open>toString\<close>.
\<close>

definition mapCourse :: "(int \<Rightarrow> jsString) \<Rightarrow> jsString CanvasCourse \<Rightarrow> jsString Course" where
  "mapCourse toString raw =
     (let trimmedName = (case raw_name raw of Some s \<Rightarrow> trim s | None \<Rightarrow> []);
          trimmedCourseCode = (case raw_course_code raw of Some s \<Rightarrow> trim s | None \<Rightarrow> []);
          safeCourseCode = (if trimmedCourseCode \<noteq> [] then trimmedCourseCode
                            else utf16 ''COURSE-'' @ toString (raw_id raw));
          safeName = (if trimmedName \<noteq> [] then trimmedName
                      else if safeCourseCode \<noteq> [] then safeCourseCode
                      else utf16 ''Course '' @ toString (raw_id raw))
      in \<lparr> course_id = raw_id raw,
           course_name = safeName,
           course_term = normalizeTerm (case raw_term raw of Some t \<Rightarrow> term_name t | None \<Rightarrow> None),
           course_code = safeCourseCode \<rparr>)"

text \<open>
  Specification vocabulary: a field that is missing or consists of white space only.
\<close>

definition isBlank :: "jsString option \<Rightarrow> bool" where
  "isBlank v = (case v of None \<Rightarrow> True | Some s \<Rightarrow> list_all isWhiteSpace s)"

section \<open>Course recency (mcp/tools.ts)\<close>

definition TERM_ORDER :: "(string \<times> int) list" where
  "TERM_ORDER = [(''winter'', 1), (''spring'', 2), (''summer'', 3), (''fall'', 4),
                 (''autumn'', 4), (''fall-winter'', 5)]"

text \<open>
  \<^verbatim>\<open>value.match(/(20\d{2})/)\<close>: the leftmost occurrence of \<open>20\<close> followed by two digits.
\<close>

fun matchYear :: "string \<Rightarrow> string option" where
  "matchYear (a # b # c # d # rest) =
     (if a = CHR ''2'' \<and> b = CHR ''0'' \<and> isDigit c \<and> isDigit d then Some [a, b, c, d]
      else matchYear (b # c # d # rest))"
| "matchYear _ = None"

definition extractYear :: "string option \<Rightarrow> int option" where
  "extractYear v =
     (case v of
        None \<Rightarrow> None
      | Some s \<Rightarrow>
          if s = [] then None
          else (case matchYear s of
                  None \<Rightarrow> None
                | Some m \<Rightarrow> Some (foldl (\<lambda>acc c. 10 * acc + digitValue c) 0 m)))"

definition extractCourseYear :: "string Course \<Rightarrow> int option" where
  "extractCourseYear course =
     (case extractYear (Some (course_term course)) of
        Some termYear \<Rightarrow> Some termYear
      | None \<Rightarrow> extractYear (Some (course_code course)))"

text \<open>
  \<^verbatim>\<open>extractSeasonRank\<close>: the rank of the first entry of \<open>TERM_ORDER\<close>, in table order,
  whose keyword occurs in the lower-cased value.
\<close>

definition extractSeasonRank :: "string option \<Rightarrow> int option" where
  "extractSeasonRank v =
     (case v of
        None \<Rightarrow> None
      | Some s \<Rightarrow>
          if s = [] then None
          else (let lower = toLowerCase s
                in map_option snd (find (\<lambda>(keyword, rank). stringIncludes lower keyword) TERM_ORDER)))"

record RecencyInfo =
  year :: "int jsnum"
  season :: int

definition courseRecencyInfo :: "string Course \<Rightarrow> RecencyInfo" where
  "courseRecencyInfo course =
     \<lparr> year = (case extractCourseYear course of Some y \<Rightarrow> Num y | None \<Rightarrow> NegInf),
       season = (case extractSeasonRank (Some (course_term course)) of
                   Some r \<Rightarrow> r
                 | None \<Rightarrow> (case extractSeasonRank (Some (course_code course)) of
                              Some r \<Rightarrow> r | None \<Rightarrow> 0)) \<rparr>"

section \<open>Authentication strategies (canvas/auth.ts)\<close>

text \<open>
  The token endpoint is the environment of the refreshable strategy: its \<open>k\<close>-th exchange
  either throws (transport failure or unreadable body), answers with a non-success status,
  or answers with a payload. Each exchange comes with the value of \<^verbatim>\<open>Date.now()\<close> read
  when its payload is processed.
\<close>

record TokenPayload =
  access_token :: "string option"
  refresh_token :: "string option"
  expires_in :: "real jsnum option"

datatype TokenExchange = ExchangeThrows | ExchangeNotOk int | ExchangeOk TokenPayload

datatype AuthError = ExchangeFailed | RefreshFailed int | MissingAccessToken

datatype 'a Outcome = Throws AuthError | Returns 'a

text \<open>
  The mutable fields of \<^verbatim>\<open>OAuthTokenAuth\<close>. The read-only configuration (base URL, client
  id and secret) only enters the request body. \<open>exchanges\<close> counts the token requests issued
  so far; it indexes the environment. The \<^verbatim>\<open>refreshing\<close> promise is null between the
  calls of a sequential caller, so \<^verbatim>\<open>refreshTokenPair\<close> runs \<^verbatim>\<open>performRefresh\<close> each time.
\<close>

record OAuthTokenAuth =
  accessToken :: "string option"
  refreshToken :: string
  tokenExpiresAt :: "real option"
  exchanges :: nat

text \<open>Truthiness of an optional string: present and not empty.\<close>

definition truthy :: "string option \<Rightarrow> bool" where
  "truthy v = (case v of None \<Rightarrow> False | Some s \<Rightarrow> s \<noteq> [])"

definition shouldRefreshSoon :: "real \<Rightarrow> OAuthTokenAuth \<Rightarrow> bool" where
  "shouldRefreshSoon now st =
     (case tokenExpiresAt st of
        None \<Rightarrow> False
      | Some t \<Rightarrow> if t = 0 then False else (let refreshThreshold = t - 60000 in now \<ge> refreshThreshold))"

text \<open>
  \<^verbatim>\<open>performRefresh(force)\<close>; \<open>force\<close> only decides whether a failure is preceded by a
  300 ms sleep.
\<close>

definition performRefresh ::
  "bool \<Rightarrow> (nat \<Rightarrow> real \<times> TokenExchange) \<Rightarrow> OAuthTokenAuth \<Rightarrow> unit Outcome \<times> OAuthTokenAuth" where
  "performRefresh force endpoint st =
     (let now = fst (endpoint (exchanges st));
          st1 = st\<lparr> exchanges := Suc (exchanges st) \<rparr>
      in case snd (endpoint (exchanges st)) of
           ExchangeThrows \<Rightarrow> (Throws ExchangeFailed, st1)
         | ExchangeNotOk status \<Rightarrow> (Throws (RefreshFailed status), st1)
         | ExchangeOk payload \<Rightarrow>
             (Returns (),
              st1\<lparr> accessToken := access_token payload,
                   refreshToken := (if truthy (refresh_token payload)
                                    then the (refresh_token payload) else refreshToken st1),
                   tokenExpiresAt :=
                     (case expires_in payload of
                        Some (Num e) \<Rightarrow>
                          if e \<noteq> 0 then Some (now + max (e - 60) 0 * 1000) else None
                      | _ \<Rightarrow> None) \<rparr>))"

definition refreshTokenPair ::
  "bool \<Rightarrow> (nat \<Rightarrow> real \<times> TokenExchange) \<Rightarrow> OAuthTokenAuth \<Rightarrow> unit Outcome \<times> OAuthTokenAuth" where
  "refreshTokenPair force endpoint st = performRefresh force endpoint st"

definition getAuthorizationHeader ::
  "(nat \<Rightarrow> real \<times> TokenExchange) \<Rightarrow> real \<Rightarrow> OAuthTokenAuth \<Rightarrow> string Outcome \<times> OAuthTokenAuth" where
  "getAuthorizationHeader endpoint now st =
     (case (if shouldRefreshSoon now st then refreshTokenPair False endpoint st
            else (Returns (), st)) of
        (Throws e, st1) \<Rightarrow> (Throws e, st1)
      | (Returns _, st1) \<Rightarrow>
          (case (if \<not> truthy (accessToken st1) then refreshTokenPair False endpoint st1
                 else (Returns (), st1)) of
             (Throws e, st2) \<Rightarrow> (Throws e, st2)
           | (Returns _, st2) \<Rightarrow>
               if \<not> truthy (accessToken st2) then (Throws MissingAccessToken, st2)
               else (Returns (''Bearer '' @ the (accessToken st2)), st2)))"

definition handleUnauthorized ::
  "(nat \<Rightarrow> real \<times> TokenExchange) \<Rightarrow> OAuthTokenAuth \<Rightarrow> bool Outcome \<times> OAuthTokenAuth" where
  "handleUnauthorized endpoint st =
     (case refreshTokenPair True endpoint st of
        (Throws e, st1) \<Rightarrow> (Throws e, st1)
      | (Returns _, st1) \<Rightarrow> (Returns (truthy (accessToken st1)), st1))"

section \<open>The HTTP client (canvas/client.ts)\<close>

subsection \<open>Retry delay\<close>

text \<open>
  \<^verbatim>\<open>Number(header)\<close>, \<^verbatim>\<open>Date.parse(header)\<close>, \<^verbatim>\<open>Date.now()\<close> and \<^verbatim>\<open>Math.random()\<close> are
  parameters. \<open>toNumber\<close> answers \<open>None\<close> for NaN and the finite value otherwise;
  \<open>dateParse\<close> answers \<open>None\<close> for NaN and the time in milliseconds otherwise. Arithmetic is
  exact: floating-point rounding is not modelled.
\<close>

definition parseRetryAfter ::
  "(string \<Rightarrow> real option) \<Rightarrow> (string \<Rightarrow> int option) \<Rightarrow> int \<Rightarrow> string option \<Rightarrow> real option" where
  "parseRetryAfter toNumber dateParse now header =
     (if \<not> truthy header then None
      else (case toNumber (the header) of
              Some seconds \<Rightarrow> Some (seconds * 1000)
            | None \<Rightarrow>
                (case dateParse (the header) of
                   Some date \<Rightarrow> (let delta = date - now in Some (if delta > 0 then real_of_int delta else 0))
                 | None \<Rightarrow> None)))"

definition retryDelay ::
  "(string \<Rightarrow> real option) \<Rightarrow> (string \<Rightarrow> int option) \<Rightarrow> int \<Rightarrow> real \<Rightarrow> nat \<Rightarrow> string option \<Rightarrow> real" where
  "retryDelay toNumber dateParse now random attempt retryAfter =
     (case parseRetryAfter toNumber dateParse now retryAfter of
        Some parsedRetryAfter \<Rightarrow> parsedRetryAfter
      | None \<Rightarrow>
          (let base = 500 * 2 ^ attempt;
               jitter = base * (0.5 + random)
           in min 5000 jitter))"

definition shouldRetry :: "int \<Rightarrow> bool" where
  "shouldRetry status = (status = 429 \<or> (status \<ge> 500 \<and> status < 600))"

subsection \<open>Responses and the environment of the client\<close>

text \<open>
  A response as the client reads it: the status, the three headers it consults (the link
  header already reduced to its \<open>next\<close> relation by \<^verbatim>\<open>parseLinkHeader\<close>), the body text
  classified by what \<^verbatim>\<open>JSON.parse\<close> makes of it, and the message that
  \<^verbatim>\<open>extractCanvasMessage\<close> finds in an error payload.
\<close>

datatype 'a Body = NoText | JsonArray "'a list" | JsonOther | NotJson

record 'a Response =
  status :: int
  x_request_id :: "string option"
  retry_after :: "string option"
  link_next :: "string option"
  body :: "'a Body"
  canvasMessage :: "string option"

text \<open>What \<^verbatim>\<open>auth.handleUnauthorized()\<close> does when a response has status 401.\<close>

datatype Unauthorized = Refreshed bool | RefreshThrows

text \<open>
  One turn of \<^verbatim>\<open>fetchWithRetry\<close>: obtaining the authorization header throws (no request
  is sent), or \<^verbatim>\<open>fetch\<close> throws (transport failure), or a response arrives.
\<close>

datatype 'a Physical = AuthorizationThrows | FetchThrows | Responds "'a Response" Unauthorized

text \<open>
  \<open>validURL s\<close> tells whether \<^verbatim>\<open>new URL(s)\<close> returns; it throws a \<^verbatim>\<open>TypeError\<close> on a string
  that is not an absolute URL.
\<close>

record 'a Env =
  physical :: "nat \<Rightarrow> 'a Physical"
  validURL :: "string \<Rightarrow> bool"
  toNumber :: "string \<Rightarrow> real option"
  dateParse :: "string \<Rightarrow> int option"
  dateNow :: "nat \<Rightarrow> int"
  mathRandom :: "nat \<Rightarrow> real"

text \<open>
  The observable effects of the client: the number of physical requests sent so far, which
  also indexes the environment, and the delays slept, in order.
\<close>

record World =
  requests :: nat
  slept :: "real list"

definition issue :: "World \<Rightarrow> World" where
  "issue w = w\<lparr> requests := Suc (requests w) \<rparr>"

definition sleep :: "real \<Rightarrow> World \<Rightarrow> World" where
  "sleep ms w = w\<lparr> slept := slept w @ [ms] \<rparr>"

definition delayAt :: "'a Env \<Rightarrow> World \<Rightarrow> nat \<Rightarrow> string option \<Rightarrow> real" where
  "delayAt env w attempt retryAfter =
     retryDelay (toNumber env) (dateParse env) (dateNow env (requests w)) (mathRandom env (requests w))
       attempt retryAfter"

text \<open>
  What a call throws: an \<^verbatim>\<open>AppError\<close>, the error of the authentication strategy, a
  transport failure of \<^verbatim>\<open>fetch\<close>, the \<^verbatim>\<open>TypeError\<close> of \<^verbatim>\<open>new URL\<close>, or the \<^verbatim>\<open>ZodError\<close> of
  a schema check.
\<close>

datatype Thrown = AppErr AppError | AuthErr | TransportErr | TypeErr | ZodErr

record CanvasClientOptions =
  opt_maxRetries :: "nat option"
  opt_defaultPerPage :: "nat option"

record CanvasClient =
  maxRetries :: nat
  defaultPerPage :: nat

definition CanvasClient_constructor :: "CanvasClientOptions \<Rightarrow> CanvasClient" where
  "CanvasClient_constructor options =
     \<lparr> maxRetries = (case opt_maxRetries options of Some n \<Rightarrow> n | None \<Rightarrow> 3),
       defaultPerPage = (case opt_defaultPerPage options of Some n \<Rightarrow> n | None \<Rightarrow> 100) \<rparr>"

subsection \<open>fetchWithRetry\<close>

text \<open>
  The recursion of the source, with the \<^verbatim>\<open>catch\<close> block written where an exception inside
  the \<^verbatim>\<open>try\<close> reaches it: a throwing \<^verbatim>\<open>fetch\<close> and a throwing \<^verbatim>\<open>handleUnauthorized\<close>.
  An exception of the recursive call is not caught (the call is returned, not awaited).
\<close>

function fetchWithRetry ::
  "CanvasClient \<Rightarrow> 'a Env \<Rightarrow> World \<Rightarrow> nat \<Rightarrow> (Thrown + 'a Response) \<times> World" where
  "fetchWithRetry client env w attempt =
     (case physical env (requests w) of
        AuthorizationThrows \<Rightarrow> (Inl AuthErr, w)
      | FetchThrows \<Rightarrow>
          if attempt \<ge> maxRetries client then (Inl TransportErr, issue w)
          else fetchWithRetry client env (sleep (delayAt env w attempt None) (issue w))
                 (attempt + 1)
      | Responds response unauthorized \<Rightarrow>
          if status response = 401 \<and> unauthorized = RefreshThrows then
            (if attempt \<ge> maxRetries client then (Inl AuthErr, issue w)
             else fetchWithRetry client env (sleep (delayAt env w attempt None) (issue w))
                    (attempt + 1))
          else if status response = 401 \<and> unauthorized = Refreshed True \<and> attempt < maxRetries client then
            fetchWithRetry client env (issue w) (attempt + 1)
          else if shouldRetry (status response) \<and> attempt < maxRetries client then
            fetchWithRetry client env
              (sleep (delayAt env w attempt (retry_after response)) (issue w)) (attempt + 1)
          else (Inr response, issue w))"
  by pat_completeness auto
termination
  by (relation "measure (\<lambda>(client, env, w, attempt). maxRetries client - attempt)") auto

declare fetchWithRetry.simps [simp del]

subsection \<open>getAll\<close>

record 'a CanvasResult =
  data :: "'a list"
  result_status :: int
  result_requestId :: "string option"
  result_requestIds :: "string list option"

definition responseOk :: "'a Response \<Rightarrow> bool" where
  "responseOk response = (200 \<le> status response \<and> status response \<le> 299)"

text \<open>
  \<^verbatim>\<open>parsePayload\<close>: the payload is the body as parsed; text that is not JSON is an error
  on a success status and becomes the payload otherwise.
\<close>

definition parsePayload :: "'a Response \<Rightarrow> AppError + (bool \<times> 'a Body)" where
  "parsePayload response =
     (case body response of
        NotJson \<Rightarrow>
          if responseOk response
          then Inl (unknownError ''Canvas returned an unexpected payload format.'')
          else Inr (responseOk response, NotJson)
      | payload \<Rightarrow> Inr (responseOk response, payload))"

definition lastOption :: "'b list \<Rightarrow> 'b option" where
  "lastOption xs = (if xs = [] then None else Some (last xs))"

text \<open>
  The \<^verbatim>\<open>while (nextUrl)\<close> loop of \<^verbatim>\<open>getAll\<close>. The first URL is always present, so the
  body runs at least once; every turn overwrites \<^verbatim>\<open>status\<close>. The upstream may supply next
  links for ever, so the loop carries fuel: \<open>None\<close> is a loop that has not returned within
  that many pages. A next link that \<^verbatim>\<open>new URL\<close> rejects ends the call with its
  \<^verbatim>\<open>TypeError\<close>.
\<close>

primrec getAllLoop ::
  "nat \<Rightarrow> CanvasClient \<Rightarrow> 'a Env \<Rightarrow> World \<Rightarrow> 'a list \<Rightarrow> string list
     \<Rightarrow> ((Thrown + 'a CanvasResult) \<times> World) option" where
  "getAllLoop 0 client env w results requestIds = None"
| "getAllLoop (Suc fuel) client env w results requestIds =
     (case fetchWithRetry client env w 0 of
        (Inl thrown, w') \<Rightarrow> Some (Inl thrown, w')
      | (Inr response, w') \<Rightarrow>
          (let requestId = x_request_id response;
               requestIds' = (if truthy requestId then requestIds @ [the requestId] else requestIds)
           in case parsePayload response of
                Inl e \<Rightarrow> Some (Inl (AppErr e), w')
              | Inr (ok, payload) \<Rightarrow>
                  if \<not> ok then
                    Some (Inl (AppErr (canvasError (status response) requestId (canvasMessage response))), w')
                  else (case payload of
                          JsonArray records \<Rightarrow>
                            if truthy (link_next response) then
                              (if validURL env (the (link_next response))
                               then getAllLoop fuel client env w' (results @ records) requestIds'
                               else Some (Inl TypeErr, w'))
                            else
                              Some (Inr \<lparr> data = results @ records,
                                          result_status = status response,
                                          result_requestId = lastOption requestIds',
                                          result_requestIds =
                                            (if requestIds' \<noteq> [] then Some requestIds' else None) \<rparr>,
                                    w')
                        | _ \<Rightarrow>
                            Some (Inl (AppErr (unknownError ''Expected a list response from Canvas.'')), w'))))"

definition getAll ::
  "CanvasClient \<Rightarrow> nat \<Rightarrow> 'a Env \<Rightarrow> World \<Rightarrow> ((Thrown + 'a CanvasResult) \<times> World) option" where
  "getAll client fuel env w = getAllLoop fuel client env w [] []"

subsection \<open>Specification vocabulary for the client\<close>

text \<open>
  A turn after which \<open>fetchWithRetry\<close> asks again while its budget lasts: a transport
  failure, a 401 whose refresh succeeded or threw, a 429 or a 5xx.
\<close>

definition retryable :: "'a Physical \<Rightarrow> bool" where
  "retryable p =
     (case p of
        AuthorizationThrows \<Rightarrow> False
      | FetchThrows \<Rightarrow> True
      | Responds response unauthorized \<Rightarrow>
          (status response = 401 \<and> unauthorized \<noteq> Refreshed False) \<or> shouldRetry (status response))"

text \<open>A page: a success response whose body is a JSON array; its records.\<close>

definition isListPage :: "'a Response \<Rightarrow> bool" where
  "isListPage response =
     (responseOk response \<and> (case body response of JsonArray records \<Rightarrow> True | _ \<Rightarrow> False))"

definition pageRecords :: "'a Response \<Rightarrow> 'a list" where
  "pageRecords response = (case body response of JsonArray records \<Rightarrow> records | _ \<Rightarrow> [])"

text \<open>
  The responses that the loop of \<open>getAll\<close> receives from \<open>fetchWithRetry\<close>, in the order it
  asks for them: it goes on after a page that names a next link which is a URL and stops
  after any other response or a throw.
\<close>

primrec pagesOf :: "nat \<Rightarrow> CanvasClient \<Rightarrow> 'a Env \<Rightarrow> World \<Rightarrow> 'a Response list" where
  "pagesOf 0 client env w = []"
| "pagesOf (Suc fuel) client env w =
     (case fetchWithRetry client env w 0 of
        (Inl thrown, w') \<Rightarrow> []
      | (Inr response, w') \<Rightarrow>
          response # (if isListPage response \<and> truthy (link_next response)
                           \<and> validURL env (the (link_next response))
                      then pagesOf fuel client env w' else []))"

text \<open>The request ids of the pages that carry a non-empty \<^verbatim>\<open>x-request-id\<close>, in page order.\<close>

definition pageRequestIds :: "'a Response list \<Rightarrow> string list" where
  "pageRequestIds pages =
     map (\<lambda>p. the (x_request_id p)) (filter (\<lambda>p. truthy (x_request_id p)) pages)"

text \<open>The request-id sequence of a result; an absent sequence has no entries.\<close>

definition requestIdsOf :: "'a CanvasResult \<Rightarrow> string list" where
  "requestIdsOf result = (case result_requestIds result of Some ids \<Rightarrow> ids | None \<Rightarrow> [])"

section \<open>Upcoming work (canvas/types.ts, mcp/mappers.ts, mcp/tools.ts)\<close>

subsection \<open>Upstream records and the mapped item\<close>

record CanvasSubmission =
  sub_workflow_state :: "string option"
  sub_late :: "bool option"
  sub_missing :: "bool option"
  sub_graded :: "bool option"
  sub_excused :: "bool option"

datatype SubmissionState =
  unsubmitted | submitted | graded | pending_review | late | missing | excused

text \<open>
  \<^verbatim>\<open>course_id\<close> and \<^verbatim>\<open>html_url\<close> are declared mandatory, but the tools guard them with
  \<^verbatim>\<open>??\<close>, so they are optional here.
\<close>

record CanvasAssignment =
  asg_id :: int
  asg_course_id :: "int option"
  asg_name :: string
  asg_due_at :: "string option"
  asg_points_possible :: "real option"
  asg_html_url :: "string option"
  asg_submission :: "CanvasSubmission option"

record CanvasTodoItem =
  todo_type :: string
  todo_assignment :: "CanvasAssignment option"
  todo_html_url :: "string option"
  todo_course_id :: "int option"

datatype Source = Todo | Assignment

record UpcomingItem =
  item_id :: int
  item_course_id :: "int option"
  item_name :: string
  due_at :: "string option"
  points :: "real option"
  html_url :: "string option"
  submission_state :: SubmissionState
  source :: Source

definition computeSubmissionState :: "CanvasSubmission option \<Rightarrow> SubmissionState" where
  "computeSubmissionState submission =
     (case submission of
        None \<Rightarrow> unsubmitted
      | Some s \<Rightarrow>
          if sub_excused s = Some True then excused
          else if sub_workflow_state s = Some ''graded'' then graded
          else if sub_workflow_state s = Some ''pending_review'' then pending_review
          else if sub_workflow_state s = Some ''submitted''
               then (if sub_late s = Some True then late else submitted)
          else if sub_workflow_state s = Some ''unsubmitted''
               then (if sub_missing s = Some True then missing else unsubmitted)
          else (if sub_missing s = Some True then missing else unsubmitted))"

text \<open>\<^verbatim>\<open>mapUpcomingFromAssignment(assignment, source) = mapAssignment(assignment, source)\<close>.\<close>

definition mapUpcomingFromAssignment :: "CanvasAssignment \<Rightarrow> Source \<Rightarrow> UpcomingItem" where
  "mapUpcomingFromAssignment raw src =
     \<lparr> item_id = asg_id raw,
       item_course_id = asg_course_id raw,
       item_name = asg_name raw,
       due_at = asg_due_at raw,
       points = asg_points_possible raw,
       html_url = asg_html_url raw,
       submission_state = computeSubmissionState (asg_submission raw),
       source = src \<rparr>"

text \<open>\<^verbatim>\<open>isWithinRange\<close>; \<^verbatim>\<open>Date.parse\<close> is the parameter \<open>parse\<close> (\<open>None\<close> for NaN).\<close>

definition isWithinRange :: "(string \<Rightarrow> int option) \<Rightarrow> string option \<Rightarrow> int \<Rightarrow> int \<Rightarrow> bool" where
  "isWithinRange parse isoDate start end' =
     (if \<not> truthy isoDate then False
      else (case parse (the isoDate) of
              None \<Rightarrow> False
            | Some timestamp \<Rightarrow> timestamp \<ge> start \<and> timestamp \<le> end'))"

subsection \<open>The map keyed by id\<close>

text \<open>
  A JavaScript \<^verbatim>\<open>Map\<close> iterates in insertion order, and setting an existing key replaces
  the value in place: an association list with distinct keys.
\<close>

fun mapSet :: "'k \<Rightarrow> 'v \<Rightarrow> ('k \<times> 'v) list \<Rightarrow> ('k \<times> 'v) list" where
  "mapSet k v [] = [(k, v)]"
| "mapSet k v ((k', v') # m) = (if k' = k then (k, v) # m else (k', v') # mapSet k v m)"

definition mapHas :: "'k \<Rightarrow> ('k \<times> 'v) list \<Rightarrow> bool" where
  "mapHas k m = (k \<in> set (map fst m))"

definition mapValues :: "('k \<times> 'v) list \<Rightarrow> 'v list" where
  "mapValues m = map snd m"

subsection \<open>The two feeds\<close>

text \<open>
  The body of the loop over the to-do feed up to the insertion: the mapped item, or \<open>None\<close>
  where the loop continues without inserting.
\<close>

definition todoEntry :: "(string \<Rightarrow> int option) \<Rightarrow> int \<Rightarrow> int \<Rightarrow> CanvasTodoItem \<Rightarrow> UpcomingItem option" where
  "todoEntry parse now rangeEnd t =
     (case todo_assignment t of
        None \<Rightarrow> None
      | Some a \<Rightarrow>
          (let assignment = a\<lparr>
                 asg_course_id := Some (case asg_course_id a of Some c \<Rightarrow> c
                                        | None \<Rightarrow> (case todo_course_id t of Some c \<Rightarrow> c | None \<Rightarrow> 0)),
                 asg_html_url := Some (case asg_html_url a of Some u \<Rightarrow> u
                                       | None \<Rightarrow> (case todo_html_url t of Some u \<Rightarrow> u | None \<Rightarrow> [])) \<rparr>
           in if \<not> isWithinRange parse (asg_due_at assignment) now rangeEnd then None
              else Some (mapUpcomingFromAssignment assignment Todo)))"

definition insertTodo :: "UpcomingItem \<Rightarrow> (int \<times> UpcomingItem) list \<Rightarrow> (int \<times> UpcomingItem) list" where
  "insertTodo mapped m = mapSet (item_id mapped) mapped m"

definition todosLoop ::
  "(string \<Rightarrow> int option) \<Rightarrow> int \<Rightarrow> int \<Rightarrow> CanvasTodoItem list
     \<Rightarrow> (int \<times> UpcomingItem) list \<Rightarrow> (int \<times> UpcomingItem) list" where
  "todosLoop parse now rangeEnd todos m =
     fold (\<lambda>t m. case todoEntry parse now rangeEnd t of None \<Rightarrow> m
                  | Some mapped \<Rightarrow> insertTodo mapped m) todos m"

text \<open>The body of the loop over one course's assignments, likewise.\<close>

definition assignmentEntry ::
  "(string \<Rightarrow> int option) \<Rightarrow> int \<Rightarrow> int \<Rightarrow> jsString CanvasCourse \<Rightarrow> CanvasAssignment \<Rightarrow> UpcomingItem option" where
  "assignmentEntry parse now rangeEnd course a =
     (let dueAt = asg_due_at a
      in if truthy dueAt \<and> \<not> isWithinRange parse dueAt now rangeEnd then None
         else Some (mapUpcomingFromAssignment
                      (a\<lparr> asg_course_id := Some (case asg_course_id a of Some c \<Rightarrow> c
                                                 | None \<Rightarrow> raw_id course) \<rparr>)
                      Assignment))"

definition insertAssignment :: "UpcomingItem \<Rightarrow> (int \<times> UpcomingItem) list \<Rightarrow> (int \<times> UpcomingItem) list" where
  "insertAssignment mapped m =
     (if \<not> mapHas (item_id mapped) m then mapSet (item_id mapped) mapped m else m)"

definition assignmentsLoop ::
  "(string \<Rightarrow> int option) \<Rightarrow> int \<Rightarrow> int \<Rightarrow> jsString CanvasCourse \<Rightarrow> CanvasAssignment list
     \<Rightarrow> (int \<times> UpcomingItem) list \<Rightarrow> (int \<times> UpcomingItem) list" where
  "assignmentsLoop parse now rangeEnd course assignments m =
     fold (\<lambda>a m. case assignmentEntry parse now rangeEnd course a of None \<Rightarrow> m
                  | Some mapped \<Rightarrow> insertAssignment mapped m) assignments m"

subsection \<open>The aggregation\<close>

text \<open>
  \<^verbatim>\<open>deps.canvas.getAll\<close> is the injected dependency of the tool: the outcomes of its calls
  are parameters, one for the to-do feed, one for the course list and one per course id for
  the assignments of that course. An outcome is a result or what the call throws.
\<close>

record Deps =
  getTodo :: "Thrown + CanvasTodoItem CanvasResult"
  getCourses :: "Thrown + jsString CanvasCourse CanvasResult"
  getAssignments :: "int \<Rightarrow> Thrown + CanvasAssignment CanvasResult"

record Aggregation =
  upcomingMap :: "(int \<times> UpcomingItem) list"
  metaRequestIds :: "string list"
  metaStatuses :: "int list"

definition pushMeta :: "'a CanvasResult \<Rightarrow> Aggregation \<Rightarrow> Aggregation" where
  "pushMeta res st =
     st\<lparr> metaRequestIds :=
            metaRequestIds st @
              (case result_requestIds res of
                 Some ids \<Rightarrow> ids
               | None \<Rightarrow> (if truthy (result_requestId res) then [the (result_requestId res)] else [])),
          metaStatuses := metaStatuses st @ [result_status res] \<rparr>"

text \<open>\<^verbatim>\<open>error instanceof AppError && error.code === 'AUTHORIZATION_FAILED'\<close>.\<close>

definition isAuthorizationFailure :: "Thrown \<Rightarrow> bool" where
  "isAuthorizationFailure thrown =
     (case thrown of AppErr e \<Rightarrow> code e = AUTHORIZATION_FAILED | _ \<Rightarrow> False)"

fun coursesLoop ::
  "(string \<Rightarrow> int option) \<Rightarrow> int \<Rightarrow> int \<Rightarrow> (int \<Rightarrow> Thrown + CanvasAssignment CanvasResult)
     \<Rightarrow> jsString CanvasCourse list \<Rightarrow> Aggregation \<Rightarrow> Thrown + Aggregation" where
  "coursesLoop parse now rangeEnd fetch [] st = Inr st"
| "coursesLoop parse now rangeEnd fetch (course # rest) st =
     (case fetch (raw_id course) of
        Inl error \<Rightarrow>
          if isAuthorizationFailure error then coursesLoop parse now rangeEnd fetch rest st
          else Inl error
      | Inr assignmentsResult \<Rightarrow>
          coursesLoop parse now rangeEnd fetch rest
            ((pushMeta assignmentsResult st)\<lparr> upcomingMap :=
                assignmentsLoop parse now rangeEnd course (data assignmentsResult) (upcomingMap st) \<rparr>))"

definition buildUpcoming ::
  "(string \<Rightarrow> int option) \<Rightarrow> int \<Rightarrow> int \<Rightarrow> Deps \<Rightarrow> Thrown + Aggregation" where
  "buildUpcoming parse now rangeEnd deps =
     (case getTodo deps of
        Inl error \<Rightarrow> Inl error
      | Inr todoResult \<Rightarrow>
          (let st0 = pushMeta todoResult \<lparr> upcomingMap = [], metaRequestIds = [], metaStatuses = [] \<rparr>;
               st1 = st0\<lparr> upcomingMap := todosLoop parse now rangeEnd (data todoResult) (upcomingMap st0) \<rparr>
           in case getCourses deps of
                Inl error \<Rightarrow> Inl error
              | Inr coursesResult \<Rightarrow>
                  coursesLoop parse now rangeEnd (getAssignments deps) (data coursesResult)
                    (pushMeta coursesResult st1)))"

subsection \<open>The final sort\<close>

text \<open>
  The comparator of the source: the due time of an item is \<^verbatim>\<open>Date.parse(due_at)\<close>, or
  \<open>+\<infinity>\<close> when \<^verbatim>\<open>due_at\<close> is null or empty; the comparator answers the difference.
\<close>

definition dueTime :: "(string \<Rightarrow> int option) \<Rightarrow> UpcomingItem \<Rightarrow> int jsnum" where
  "dueTime parse a =
     (if truthy (due_at a)
      then (case parse (the (due_at a)) of Some t \<Rightarrow> Num t | None \<Rightarrow> NaN)
      else PosInf)"

definition compareDue :: "(string \<Rightarrow> int option) \<Rightarrow> UpcomingItem \<Rightarrow> UpcomingItem \<Rightarrow> int jsnum" where
  "compareDue parse a b = jsSub (dueTime parse a) (dueTime parse b)"

text \<open>
  \<^verbatim>\<open>Array.prototype.sort\<close> is stable, which for a consistent comparator determines its
  result: the stable insertion sort. An element goes behind exactly those it compares
  greater than; a NaN comparison counts as equal.
\<close>

primrec insertSorted :: "('a \<Rightarrow> 'a \<Rightarrow> int jsnum) \<Rightarrow> 'a \<Rightarrow> 'a list \<Rightarrow> 'a list" where
  "insertSorted cmp x [] = [x]"
| "insertSorted cmp x (y # ys) =
     (if jsPositive (cmp x y) then y # insertSorted cmp x ys else x # y # ys)"

definition jsSort :: "('a \<Rightarrow> 'a \<Rightarrow> int jsnum) \<Rightarrow> 'a list \<Rightarrow> 'a list" where
  "jsSort cmp xs = foldr (insertSorted cmp) xs []"

record ToolMeta =
  meta_status :: "int option"
  meta_requestId :: "string option"
  meta_requestIds :: "string list"

text \<open>
  \<^verbatim>\<open>upcomingItemSchema\<close> of mcp/schemas.ts on a mapped item. The fields that the record
  types as present pass their check (\<^verbatim>\<open>due_at\<close> and \<^verbatim>\<open>points\<close> are nullable, and
  \<^verbatim>\<open>submission_state\<close> and \<^verbatim>\<open>source\<close> hold members of their enumerations); \<^verbatim>\<open>course_id\<close>
  must be a number and \<^verbatim>\<open>html_url\<close> a string, so a missing one fails.
\<close>

definition upcomingItemSchema :: "UpcomingItem \<Rightarrow> bool" where
  "upcomingItemSchema item = (item_course_id item \<noteq> None \<and> html_url item \<noteq> None)"

text \<open>
  \<^verbatim>\<open>listUpcomingOutputSchema.parse({ upcoming })\<close>: the payload with the same items, or a
  \<^verbatim>\<open>ZodError\<close>.
\<close>

definition listUpcomingOutputSchema_parse :: "UpcomingItem list \<Rightarrow> Thrown + UpcomingItem list" where
  "listUpcomingOutputSchema_parse upcoming =
     (if list_all upcomingItemSchema upcoming then Inr upcoming else Inl ZodErr)"

text \<open>
  The handler of \<^verbatim>\<open>list_upcoming\<close>: \<open>days\<close> is the optional argument, \<open>now\<close> the clock in
  milliseconds.
\<close>

definition listUpcoming ::
  "(string \<Rightarrow> int option) \<Rightarrow> int \<Rightarrow> int option \<Rightarrow> Deps \<Rightarrow> Thrown + (UpcomingItem list \<times> ToolMeta)" where
  "listUpcoming parse now days deps =
     (let rangeDays = (case days of Some d \<Rightarrow> d | None \<Rightarrow> 7);
          rangeEnd = now + rangeDays * 24 * 60 * 60 * 1000
      in case buildUpcoming parse now rangeEnd deps of
           Inl error \<Rightarrow> Inl error
         | Inr st \<Rightarrow>
             (let upcoming = jsSort (compareDue parse) (mapValues (upcomingMap st))
              in case listUpcomingOutputSchema_parse upcoming of
                   Inl error \<Rightarrow> Inl error
                 | Inr payload \<Rightarrow>
                     Inr (payload,
                          \<lparr> meta_status = lastOption (metaStatuses st),
                            meta_requestId = lastOption (metaRequestIds st),
                            meta_requestIds = metaRequestIds st \<rparr>)))"

subsection \<open>Specification vocabulary for the aggregation\<close>

text \<open>What each feed contributes to the merge, in processing order.\<close>

definition todoFeedEntries ::
  "(string \<Rightarrow> int option) \<Rightarrow> int \<Rightarrow> int \<Rightarrow> CanvasTodoItem list \<Rightarrow> UpcomingItem list" where
  "todoFeedEntries parse now rangeEnd todos = List.map_filter (todoEntry parse now rangeEnd) todos"

definition assignmentFeedEntries ::
  "(string \<Rightarrow> int option) \<Rightarrow> int \<Rightarrow> int \<Rightarrow> (int \<Rightarrow> Thrown + CanvasAssignment CanvasResult)
     \<Rightarrow> jsString CanvasCourse list \<Rightarrow> UpcomingItem list" where
  "assignmentFeedEntries parse now rangeEnd fetch courses =
     concat (map (\<lambda>course. case fetch (raw_id course) of
                              Inl error \<Rightarrow> []
                            | Inr res \<Rightarrow> List.map_filter (assignmentEntry parse now rangeEnd course) (data res))
                 courses)"

text \<open>The end of the horizon for a given argument.\<close>

definition rangeEndOf :: "int \<Rightarrow> int option \<Rightarrow> int" where
  "rangeEndOf now days = now + (case days of Some d \<Rightarrow> d | None \<Rightarrow> 7) * 24 * 60 * 60 * 1000"

text \<open>A course whose assignment fetch fails with an authorization failure.\<close>

definition unauthorizedCourse :: "(int \<Rightarrow> Thrown + CanvasAssignment CanvasResult) \<Rightarrow> jsString CanvasCourse \<Rightarrow> bool" where
  "unauthorizedCourse fetch course =
     (case fetch (raw_id course) of Inl error \<Rightarrow> isAuthorizationFailure error | Inr res \<Rightarrow> False)"

text \<open>A course whose assignment fetch succeeds or fails with an authorization failure.\<close>

definition harmlessCourse :: "(int \<Rightarrow> Thrown + CanvasAssignment CanvasResult) \<Rightarrow> jsString CanvasCourse \<Rightarrow> bool" where
  "harmlessCourse fetch course =
     (case fetch (raw_id course) of Inl error \<Rightarrow> isAuthorizationFailure error | Inr res \<Rightarrow> True)"

text \<open>Each value at the place of its first occurrence.\<close>

primrec firstOccurrences :: "'a list \<Rightarrow> 'a list" where
  "firstOccurrences [] = []"
| "firstOccurrences (x # xs) = x # removeAll x (firstOccurrences xs)"

text \<open>
  The map after both loops: the to-do entries set in order, then the assignment entries
  inserted where their id is absent.
\<close>

definition mergedMap :: "UpcomingItem list \<Rightarrow> UpcomingItem list \<Rightarrow> (int \<times> UpcomingItem) list" where
  "mergedMap todoEntries assignmentEntries =
     fold insertAssignment assignmentEntries (fold insertTodo todoEntries [])"

text \<open>The invariant of the map: distinct keys, each value stored under its own id.\<close>

definition wfMap :: "(int \<times> UpcomingItem) list \<Rightarrow> bool" where
  "wfMap m = (distinct (map fst m) \<and> (\<forall>p \<in> set m. item_id (snd p) = fst p))"

section \<open>Sample inputs\<close>

text \<open>Concrete responses, environments and states at which the closed theorems evaluate the code.\<close>

definition defaultClient :: CanvasClient where
  "defaultClient = CanvasClient_constructor \<lparr> opt_maxRetries = None, opt_defaultPerPage = None \<rparr>"

definition emptyWorld :: World where
  "emptyWorld = \<lparr> requests = 0, slept = [] \<rparr>"

definition sampleResponse :: "int \<Rightarrow> string option \<Rightarrow> string option \<Rightarrow> string option \<Rightarrow> nat list \<Rightarrow> nat Response" where
  "sampleResponse s rid retryAfter next records =
     \<lparr> status = s, x_request_id = rid, retry_after = retryAfter, link_next = next,
       body = JsonArray records, canvasMessage = None \<rparr>"

text \<open>
  \<^verbatim>\<open>new URL\<close> on the links of the sample upstream: an absolute URL of the sample host parses,
  whatever its path.
\<close>

definition sampleValidURL :: "string \<Rightarrow> bool" where
  "sampleValidURL s = prefix ''https://canvas/'' s"

text \<open>
  A 429 answer carrying \<^verbatim>\<open>retry-after: -5\<close>, then success. \<^verbatim>\<open>Number('-5')\<close> is \<open>-5\<close>.
\<close>

definition negativeHintEnv :: "nat Env" where
  "negativeHintEnv =
     \<lparr> physical = (\<lambda>k. if k = 0
                        then Responds (sampleResponse 429 None (Some ''-5'') None []) (Refreshed False)
                        else Responds (sampleResponse 200 None None None [1, 2]) (Refreshed False)),
       validURL = sampleValidURL,
       toNumber = (\<lambda>s. if s = ''-5'' then Some (- 5) else None),
       dateParse = (\<lambda>s. None),
       dateNow = (\<lambda>k. 0),
       mathRandom = (\<lambda>k. 0) \<rparr>"

definition staleTokenState :: OAuthTokenAuth where
  "staleTokenState =
     \<lparr> accessToken = Some ''old'', refreshToken = ''r0'', tokenExpiresAt = Some 5000, exchanges = 0 \<rparr>"

text \<open>
  A token endpoint whose answers carry no \<^verbatim>\<open>expires_in\<close>: the first exchange gives the
  token \<open>fresh\<close>, every later one the token \<open>fresher\<close> and a new refresh token.
\<close>

definition noExpiryEndpoint :: "nat \<Rightarrow> real \<times> TokenExchange" where
  "noExpiryEndpoint k =
     (1000, ExchangeOk \<lparr> access_token = Some (if k = 0 then ''fresh'' else ''fresher''),
                         refresh_token = (if k = 0 then None else Some ''r1''),
                         expires_in = None \<rparr>)"

text \<open>
  Two pages, each answered by three 503 responses before its success: requests 0 to 2 fail,
  request 3 is the first page (with a next link), requests 4 to 6 fail, request 7 is the
  last page.
\<close>

definition retryingPagesEnv :: "nat Env" where
  "retryingPagesEnv =
     \<lparr> physical = (\<lambda>k. if k = 3
                        then Responds (sampleResponse 200 (Some ''a'') None
                                         (Some ''https://canvas/p2'') [1, 2]) (Refreshed False)
                        else if k = 7
                        then Responds (sampleResponse 200 (Some ''b'') None None [3]) (Refreshed False)
                        else Responds (sampleResponse 503 None None None []) (Refreshed False)),
       validURL = sampleValidURL,
       toNumber = (\<lambda>s. None),
       dateParse = (\<lambda>s. None),
       dateNow = (\<lambda>k. 0),
       mathRandom = (\<lambda>k. 0) \<rparr>"

text \<open>An upstream whose first page names a relative next link, which \<^verbatim>\<open>new URL\<close> rejects.\<close>

definition relativeLinkEnv :: "nat Env" where
  "relativeLinkEnv =
     \<lparr> physical = (\<lambda>k. Responds (sampleResponse 200 None None
                                       (Some ''/api/v1/courses?page=2'') [1, 2]) (Refreshed False)),
       validURL = sampleValidURL,
       toNumber = (\<lambda>s. None),
       dateParse = (\<lambda>s. None),
       dateNow = (\<lambda>k. 0),
       mathRandom = (\<lambda>k. 0) \<rparr>"

text \<open>An upstream whose single page carries no \<^verbatim>\<open>x-request-id\<close> header.\<close>

definition noRequestIdEnv :: "nat Env" where
  "noRequestIdEnv =
     \<lparr> physical = (\<lambda>k. Responds (sampleResponse 200 None None None [1, 2]) (Refreshed False)),
       validURL = sampleValidURL,
       toNumber = (\<lambda>s. None),
       dateParse = (\<lambda>s. None),
       dateNow = (\<lambda>k. 0),
       mathRandom = (\<lambda>k. 0) \<rparr>"

text \<open>
  A to-do feed and three courses at clock 0 with the default horizon of 7 days. Id 10 is in
  both feeds with different data; course 2 is not accessible; in \<open>failingDeps\<close> the fetch
  for course 3 fails with a 503.
\<close>

definition sampleParse :: "string \<Rightarrow> int option" where
  "sampleParse s =
     (if s = ''1970-01-02T00:00:00Z'' then Some 86400000
      else if s = ''1970-01-03T00:00:00Z'' then Some 172800000
      else if s = ''1970-02-01T00:00:00Z'' then Some 2678400000
      else None)"

definition sampleAssignment :: "int \<Rightarrow> string \<Rightarrow> string option \<Rightarrow> CanvasAssignment" where
  "sampleAssignment i n due =
     \<lparr> asg_id = i, asg_course_id = None, asg_name = n, asg_due_at = due,
       asg_points_possible = None, asg_html_url = Some ''u'', asg_submission = None \<rparr>"

definition sampleItem :: "int \<Rightarrow> int \<Rightarrow> string \<Rightarrow> string option \<Rightarrow> Source \<Rightarrow> UpcomingItem" where
  "sampleItem i c n due src =
     \<lparr> item_id = i, item_course_id = Some c, item_name = n, due_at = due, points = None,
       html_url = Some ''u'', submission_state = unsubmitted, source = src \<rparr>"

definition sampleResult :: "'a list \<Rightarrow> 'a CanvasResult" where
  "sampleResult xs =
     \<lparr> data = xs, result_status = 200, result_requestId = None, result_requestIds = None \<rparr>"

definition sampleTodo :: "CanvasAssignment option \<Rightarrow> CanvasTodoItem" where
  "sampleTodo a =
     \<lparr> todo_type = ''submitting'', todo_assignment = a, todo_html_url = None, todo_course_id = Some 1 \<rparr>"

text \<open>
  \<^verbatim>\<open>Number::toString\<close> as it prints the safe integers (those of magnitude below \<open>2^53\<close>): the
  decimal digits, after a minus sign for a negative one.
\<close>

definition digitChar :: "nat \<Rightarrow> char" where
  "digitChar d = ''0123456789'' ! d"

fun digitsOfNat :: "nat \<Rightarrow> string" where
  "digitsOfNat n =
     (if n < 10 then [digitChar n] else digitsOfNat (n div 10) @ [digitChar (n mod 10)])"

declare digitsOfNat.simps [simp del]

definition sampleToString :: "int \<Rightarrow> jsString" where
  "sampleToString i =
     utf16 (if i < 0 then CHR ''-'' # digitsOfNat (nat (- i)) else digitsOfNat (nat i))"

text \<open>
  A course whose name is a no-break space and a space and whose code is a line separator,
  and a course with padded name and code (an ideographic space before the name).
\<close>

definition blankCourse :: "jsString CanvasCourse" where
  "blankCourse =
     \<lparr> raw_id = 42, raw_name = Some [0x00A0, 0x0020], raw_course_code = Some [0x2028],
       raw_term = None \<rparr>"

definition paddedCourse :: "jsString CanvasCourse" where
  "paddedCourse =
     \<lparr> raw_id = 7, raw_name = Some (0x3000 # utf16 ''Logic ''),
       raw_course_code = Some (utf16 ''PHIL 101 '' @ [0xFEFF]), raw_term = None \<rparr>"

definition sampleCourse :: "int \<Rightarrow> jsString CanvasCourse" where
  "sampleCourse i = \<lparr> raw_id = i, raw_name = None, raw_course_code = None, raw_term = None \<rparr>"

definition sampleTodos :: "CanvasTodoItem list" where
  "sampleTodos =
     [sampleTodo (Some (sampleAssignment 10 ''Essay'' (Some ''1970-01-03T00:00:00Z''))),
      sampleTodo (Some (sampleAssignment 11 ''Quiz'' (Some ''1970-01-02T00:00:00Z''))),
      sampleTodo None]"

definition sampleDeps :: Deps where
  "sampleDeps =
     \<lparr> getTodo = Inr (sampleResult sampleTodos),
       getCourses = Inr (sampleResult [sampleCourse 1, sampleCourse 2, sampleCourse 3]),
       getAssignments = (\<lambda>c.
         if c = 1 then Inr (sampleResult
           [sampleAssignment 10 ''Essay (course copy)'' (Some ''1970-01-02T00:00:00Z''),
            sampleAssignment 12 ''Lab'' (Some ''1970-01-02T00:00:00Z''),
            sampleAssignment 13 ''Reading'' None,
            sampleAssignment 14 ''Project'' (Some ''1970-02-01T00:00:00Z'')])
         else if c = 2 then Inl (AppErr (canvasError 403 None None))
         else Inr (sampleResult [sampleAssignment 15 ''Exam'' (Some ''1970-01-03T00:00:00Z'')])) \<rparr>"

text \<open>In \<open>noUrlDeps\<close> course 3 lists an assignment without \<^verbatim>\<open>html_url\<close>.\<close>

definition noUrlDeps :: Deps where
  "noUrlDeps =
     sampleDeps\<lparr> getAssignments := (\<lambda>c.
        if c = 3 then Inr (sampleResult
          [(sampleAssignment 15 ''Exam'' (Some ''1970-01-03T00:00:00Z''))\<lparr> asg_html_url := None \<rparr>])
        else getAssignments sampleDeps c) \<rparr>"

definition failingDeps :: Deps where
  "failingDeps =
     sampleDeps\<lparr> getAssignments := (\<lambda>c. if c = 3 then Inl (AppErr (canvasError 503 None None))
                                         else getAssignments sampleDeps c) \<rparr>"

section \<open>Properties of the error classifier\<close>

lemma canvasError_code:
  "code (canvasError s rid fb) =
     (case STATUS_TO_CODE s of Some c \<Rightarrow> c | None \<Rightarrow> CANVAS_UNAVAILABLE)"
  by (simp add: canvasError_def Let_def)

text \<open>
  C1 (as stated, refuted): a status outside the table and below 500, such as 418, is not
  classified as \<open>UNKNOWN\<close>; the classifier answers \<open>CANVAS_UNAVAILABLE\<close>.
\<close>

theorem C1_unlisted_status_not_unknown:
  "(418::int) \<notin> {400, 401, 403, 404, 429} \<and> \<not> (418::int) \<ge> 500
   \<and> code (canvasError 418 None None) = CANVAS_UNAVAILABLE
   \<and> code (canvasError 418 None None) \<noteq> UNKNOWN"
  by (simp add: canvasError_code STATUS_TO_CODE_def)

text \<open>
  C1 (amended): for every upstream status outside the table (not 400, 401, 403, 404, 429),
  whether below 500 or not, the classifier returns an error of kind \<open>CANVAS_UNAVAILABLE\<close>
  with outward status 503 that records the upstream status; \<open>canvasError\<close> never returns
  the kind \<open>UNKNOWN\<close>, which only \<open>unknownError\<close> produces.
\<close>

theorem C1_unlisted_status_unavailable:
  "(s \<notin> {400, 401, 403, 404, 429} \<longrightarrow>
      code (canvasError s rid fb) = CANVAS_UNAVAILABLE
      \<and> httpStatus (canvasError s rid fb) = 503
      \<and> canvasStatus (canvasError s rid fb) = Some s)
   \<and> code (canvasError s rid fb) \<noteq> UNKNOWN
   \<and> code (unknownError msg) = UNKNOWN"
proof -
  have "code (canvasError s rid fb) \<noteq> UNKNOWN"
    by (simp add: canvasError_code STATUS_TO_CODE_def)
  moreover have "code (unknownError msg) = UNKNOWN"
    by (simp add: unknownError_def)
  moreover have "s \<notin> {400, 401, 403, 404, 429} \<longrightarrow>
      code (canvasError s rid fb) = CANVAS_UNAVAILABLE
      \<and> httpStatus (canvasError s rid fb) = 503
      \<and> canvasStatus (canvasError s rid fb) = Some s"
    by (simp add: canvasError_def Let_def STATUS_TO_CODE_def)
  ultimately show ?thesis by blast
qed

theorem C1_unlisted_status_unavailable_witness:
  "(418::int) \<notin> {400, 401, 403, 404, 429}
   \<and> code (canvasError 418 (Some ''req-1'') None) = CANVAS_UNAVAILABLE
   \<and> httpStatus (canvasError 418 (Some ''req-1'') None) = 503
   \<and> canvasStatus (canvasError 418 (Some ''req-1'') None) = Some 418
   \<and> message (canvasError 418 (Some ''req-1'') None) = ''Canvas temporarily unavailable.''"
proof -
  have out: "(418::int) \<notin> {400, 401, 403, 404, 429}" by simp
  have msg: "message (canvasError 418 (Some ''req-1'') None) = ''Canvas temporarily unavailable.''"
    by (simp add: canvasError_def Let_def STATUS_TO_MESSAGE_def)
  from C1_unlisted_status_unavailable [of 418 "Some ''req-1''" None "[]"] out msg
  show ?thesis by blast
qed

section \<open>Properties of the course mapping\<close>

lemma dropWhile_all_iff: "(\<forall>x\<in>set (dropWhile P s). P x) \<longleftrightarrow> (\<forall>x\<in>set s. P x)"
  by (induction s) auto

text \<open>Trimming leaves nothing exactly of the strings that consist of white space.\<close>

lemma trim_empty_iff: "trim s = [] \<longleftrightarrow> list_all isWhiteSpace s"
  by (simp add: trim_def list_all_iff dropWhile_all_iff)

lemma mapCourse_course_code:
  "course_code (mapCourse toString raw) =
     (if isBlank (raw_course_code raw) then utf16 ''COURSE-'' @ toString (raw_id raw)
      else trim (the (raw_course_code raw)))"
proof (cases "raw_course_code raw")
  case None
  then show ?thesis by (simp add: mapCourse_def Let_def isBlank_def)
next
  case (Some s)
  then show ?thesis by (simp add: mapCourse_def Let_def isBlank_def trim_empty_iff)
qed

lemma mapCourse_course_name:
  "course_name (mapCourse toString raw) =
     (if isBlank (raw_name raw) then course_code (mapCourse toString raw)
      else trim (the (raw_name raw)))"
proof (cases "raw_name raw")
  case None
  then show ?thesis by (simp add: mapCourse_def Let_def isBlank_def utf16_def)
next
  case (Some s)
  then show ?thesis by (simp add: mapCourse_def Let_def isBlank_def trim_empty_iff utf16_def)
qed

text \<open>
  C10: for every raw upstream course, and whatever \<^verbatim>\<open>Number::toString\<close> makes of its id, the
  mapped course has a non-empty name and a non-empty course code; a course code that is
  missing or consists of white space only (every code unit that \<^verbatim>\<open>trim\<close> strips, the
  no-break space, the byte order mark and the line separators included) is replaced by
  \<open>COURSE-<id>\<close>, and a missing or whitespace-only name falls back to that (possibly
  synthesized) course code. Otherwise the trimmed upstream value is kept.
\<close>

theorem C10_mapCourse_name_and_code_nonempty:
  "course_name (mapCourse toString raw) \<noteq> [] \<and> course_code (mapCourse toString raw) \<noteq> []
   \<and> (isBlank (raw_course_code raw) \<longrightarrow>
        course_code (mapCourse toString raw) = utf16 ''COURSE-'' @ toString (raw_id raw))
   \<and> (isBlank (raw_name raw) \<longrightarrow>
        course_name (mapCourse toString raw) = course_code (mapCourse toString raw))
   \<and> (\<not> isBlank (raw_course_code raw) \<longrightarrow>
        course_code (mapCourse toString raw) = trim (the (raw_course_code raw)))
   \<and> (\<not> isBlank (raw_name raw) \<longrightarrow>
        course_name (mapCourse toString raw) = trim (the (raw_name raw)))"
proof -
  have code_ne: "course_code (mapCourse toString raw) \<noteq> []"
    by (simp add: mapCourse_def Let_def utf16_def)
  have name_ne: "course_name (mapCourse toString raw) \<noteq> []"
    by (simp add: mapCourse_def Let_def utf16_def)
  show ?thesis
    using code_ne name_ne by (simp add: mapCourse_course_code mapCourse_course_name)
qed

text \<open>
  At the course with a name of a no-break space and a space and a code of a line separator,
  both fall back to \<open>COURSE-42\<close>; at the padded course both are kept, trimmed.
\<close>

theorem C10_mapCourse_name_and_code_nonempty_witness:
  "isBlank (raw_course_code blankCourse) \<and> isBlank (raw_name blankCourse)
   \<and> course_code (mapCourse sampleToString blankCourse) = utf16 ''COURSE-42''
   \<and> course_name (mapCourse sampleToString blankCourse) = utf16 ''COURSE-42''
   \<and> \<not> isBlank (raw_name paddedCourse) \<and> \<not> isBlank (raw_course_code paddedCourse)
   \<and> course_name (mapCourse sampleToString paddedCourse) = utf16 ''Logic''
   \<and> course_code (mapCourse sampleToString paddedCourse) = utf16 ''PHIL 101''"
proof -
  have b: "isBlank (raw_course_code blankCourse)" "isBlank (raw_name blankCourse)"
          "\<not> isBlank (raw_name paddedCourse)" "\<not> isBlank (raw_course_code paddedCourse)"
    by (simp_all add: isBlank_def isWhiteSpace_def blankCourse_def paddedCourse_def utf16_def)
  have n: "sampleToString (raw_id blankCourse) = utf16 ''42''"
    by (simp add: sampleToString_def blankCourse_def digitsOfNat.simps digitChar_def)
  have t: "trim (the (raw_name paddedCourse)) = utf16 ''Logic''"
          "trim (the (raw_course_code paddedCourse)) = utf16 ''PHIL 101''"
    by (simp_all add: trim_def isWhiteSpace_def paddedCourse_def utf16_def)
  have c: "utf16 ''COURSE-'' @ utf16 ''42'' = utf16 ''COURSE-42''"
    by (simp add: utf16_def)
  from C10_mapCourse_name_and_code_nonempty [of sampleToString blankCourse]
    C10_mapCourse_name_and_code_nonempty [of sampleToString paddedCourse] b n t c
  show ?thesis by simp
qed

section \<open>Properties of the season rank\<close>

lemma stringIncludes_sublist: "stringIncludes s k \<longleftrightarrow> sublist k s"
  by (induction s) (auto simp: sublist_Cons_right)

lemma stringIncludes_fall_winter:
  assumes "stringIncludes s ''fall-winter''"
  shows "stringIncludes s ''winter''"
proof -
  from assms have "sublist ''fall-winter'' s"
    by (simp add: stringIncludes_sublist)
  moreover have "sublist ''winter'' ''fall-winter''"
    by (simp add: sublist_Cons_right)
  ultimately have "sublist ''winter'' s"
    by (rule sublist_order.order.trans [rotated])
  then show ?thesis by (simp add: stringIncludes_sublist)
qed

text \<open>The last row of the table is shadowed by its first row: rank 5 is never returned.\<close>

lemma extractSeasonRank_never_5: "extractSeasonRank v \<noteq> Some 5"
proof (cases v)
  case None
  then show ?thesis by (simp add: extractSeasonRank_def)
next
  case (Some s)
  show ?thesis
  proof (cases "stringIncludes (toLowerCase s) ''winter''")
    case True
    then show ?thesis using Some
      by (simp add: extractSeasonRank_def TERM_ORDER_def Let_def)
  next
    case False
    then have "\<not> stringIncludes (toLowerCase s) ''fall-winter''"
      using stringIncludes_fall_winter by blast
    with False show ?thesis using Some
      by (simp add: extractSeasonRank_def TERM_ORDER_def Let_def)
  qed
qed

text \<open>The term label is consulted before the course code.\<close>

lemma courseRecencyInfo_term_first:
  "extractSeasonRank (Some (course_term c)) = Some r \<Longrightarrow> season (courseRecencyInfo c) = r"
  by (simp add: courseRecencyInfo_def)

lemma courseRecencyInfo_code_second:
  "extractSeasonRank (Some (course_term c)) = None \<Longrightarrow>
   extractSeasonRank (Some (course_code c)) = Some r \<Longrightarrow> season (courseRecencyInfo c) = r"
  by (simp add: courseRecencyInfo_def)

text \<open>
  C7 (the code at the failing input): a course whose term label is \<open>Fall-Winter 2024\<close>
  receives season rank 1, the rank of \<open>winter\<close>, not 5: the table is scanned in order and
  \<open>winter\<close>, its first keyword, occurs in every label that contains \<open>fall-winter\<close>.
\<close>

theorem C7_fall_winter_ranked_as_winter:
  "extractSeasonRank (Some ''Fall-Winter 2024'') = Some 1
   \<and> season (courseRecencyInfo \<lparr> course_id = 1, course_name = ''Topics'',
        course_term = ''Fall-Winter 2024'', course_code = ''TOP100'' \<rparr>) = 1"
  by (simp add: courseRecencyInfo_def extractSeasonRank_def TERM_ORDER_def Let_def
      toLowerCase_def toLowerChar_def)

section \<open>Properties of the refreshable strategy\<close>

text \<open>A successful exchange stores the token, the refresh token if one came, and the expiry.\<close>

lemma performRefresh_ok:
  assumes "snd (endpoint (exchanges st)) = ExchangeOk payload"
  shows "performRefresh force endpoint st
         = (Returns (),
            st\<lparr> exchanges := Suc (exchanges st),
                accessToken := access_token payload,
                refreshToken := (if truthy (refresh_token payload)
                                 then the (refresh_token payload) else refreshToken st),
                tokenExpiresAt :=
                  (case expires_in payload of
                     Some (Num e) \<Rightarrow>
                       if e \<noteq> 0 then Some (fst (endpoint (exchanges st)) + max (e - 60) 0 * 1000)
                       else None
                   | _ \<Rightarrow> None) \<rparr>)"
  using assms by (simp add: performRefresh_def Let_def)

lemma performRefresh_unknown_expiry:
  assumes "snd (endpoint (exchanges st)) = ExchangeOk payload"
    and "expires_in payload \<in> {None, Some (Num 0), Some NaN, Some PosInf, Some NegInf}"
  shows "tokenExpiresAt (snd (performRefresh force endpoint st)) = None"
  using assms by (auto simp: performRefresh_def Let_def)

lemma performRefresh_known_expiry:
  assumes "snd (endpoint (exchanges st)) = ExchangeOk payload"
    and "expires_in payload = Some (Num e)" and "e \<noteq> 0"
  shows "tokenExpiresAt (snd (performRefresh force endpoint st))
         = Some (fst (endpoint (exchanges st)) + max (e - 60) 0 * 1000)"
  using assms by (simp add: performRefresh_def Let_def)

lemma shouldRefreshSoon_unknown: "tokenExpiresAt st = None \<Longrightarrow> \<not> shouldRefreshSoon now st"
  by (simp add: shouldRefreshSoon_def)

lemma getAuthorizationHeader_unknown:
  assumes "tokenExpiresAt st = None" "accessToken st = Some t" "t \<noteq> []"
  shows "getAuthorizationHeader endpoint now st = (Returns (''Bearer '' @ t), st)"
  using assms by (simp add: getAuthorizationHeader_def shouldRefreshSoon_def truthy_def)

lemma authorize_indefinitely:
  assumes "tokenExpiresAt st = None" "accessToken st = Some t" "t \<noteq> []"
  shows "fold (\<lambda>now s. snd (getAuthorizationHeader endpoint now s)) clock st = st"
  using assms by (induction clock) (simp_all add: getAuthorizationHeader_unknown)

text \<open>With a known expiry the proactive check fires from one minute before it.\<close>

lemma getAuthorizationHeader_known:
  assumes "tokenExpiresAt st = Some x" "x \<noteq> 0" "x - 60000 \<le> now"
  shows "shouldRefreshSoon now st
         \<and> exchanges (snd (getAuthorizationHeader endpoint now st)) > exchanges st"
proof -
  have s: "shouldRefreshSoon now st"
    using assms by (simp add: shouldRefreshSoon_def Let_def)
  have e: "exchanges (snd (performRefresh force endpoint st')) = Suc (exchanges st')" for force st'
    by (cases "snd (endpoint (exchanges st'))") (simp_all add: performRefresh_def Let_def)
  obtain r st1 where p: "performRefresh False endpoint st = (r, st1)"
    by (cases "performRefresh False endpoint st")
  with e [of False st] have e1: "exchanges st1 = Suc (exchanges st)" by simp
  obtain r2 st2 where p2: "performRefresh False endpoint st1 = (r2, st2)"
    by (cases "performRefresh False endpoint st1")
  with e [of False st1] have e2: "exchanges st2 = Suc (exchanges st1)" by simp
  have "exchanges (snd (getAuthorizationHeader endpoint now st)) > exchanges st"
    using s p p2 e1 e2
    by (auto simp: getAuthorizationHeader_def refreshTokenPair_def split: Outcome.splits)
  with s show ?thesis by simp
qed

text \<open>The proactive refresh stores the new token, and the call answers with it.\<close>

lemma getAuthorizationHeader_proactive:
  assumes "tokenExpiresAt st = Some x" "x \<noteq> 0" "x - 60000 \<le> now"
    and "snd (endpoint (exchanges st)) = ExchangeOk payload"
    and "access_token payload = Some a" "a \<noteq> []"
  shows "getAuthorizationHeader endpoint now st
         = (Returns (''Bearer '' @ a), snd (performRefresh False endpoint st))"
proof -
  have s: "shouldRefreshSoon now st"
    using assms(1-3) by (simp add: shouldRefreshSoon_def Let_def)
  from performRefresh_ok [of endpoint st payload False] assms(4)
  obtain st1 where p: "performRefresh False endpoint st = (Returns (), st1)"
    and t: "accessToken st1 = access_token payload"
    by simp
  from s p t assms(5,6) show ?thesis
    by (simp add: getAuthorizationHeader_def refreshTokenPair_def truthy_def)
qed

lemma handleUnauthorized_exchanges:
  "exchanges (snd (handleUnauthorized endpoint st)) = Suc (exchanges st)"
  by (auto simp: handleUnauthorized_def refreshTokenPair_def performRefresh_def Let_def
      split: TokenExchange.splits prod.splits Outcome.splits)

text \<open>\<open>handleUnauthorized\<close> is the forced refresh, whatever the cached expiry.\<close>

lemma handleUnauthorized_performRefresh:
  "handleUnauthorized endpoint st
   = (case performRefresh True endpoint st of
        (Throws e, st1) \<Rightarrow> (Throws e, st1)
      | (Returns u, st1) \<Rightarrow> (Returns (truthy (accessToken st1)), st1))"
  by (simp add: handleUnauthorized_def refreshTokenPair_def)

lemma handleUnauthorized_ok:
  assumes "snd (endpoint (exchanges st)) = ExchangeOk payload"
  shows "handleUnauthorized endpoint st
         = (Returns (truthy (access_token payload)),
            st\<lparr> exchanges := Suc (exchanges st),
                accessToken := access_token payload,
                refreshToken := (if truthy (refresh_token payload)
                                 then the (refresh_token payload) else refreshToken st),
                tokenExpiresAt :=
                  (case expires_in payload of
                     Some (Num e) \<Rightarrow>
                       if e \<noteq> 0 then Some (fst (endpoint (exchanges st)) + max (e - 60) 0 * 1000)
                       else None
                   | _ \<Rightarrow> None) \<rparr>)"
  using performRefresh_ok [of endpoint st payload True] assms
  by (simp add: handleUnauthorized_performRefresh)

lemma handleUnauthorized_failed:
  assumes "snd (endpoint (exchanges st)) = ExchangeThrows
           \<or> snd (endpoint (exchanges st)) = ExchangeNotOk sc"
  shows "handleUnauthorized endpoint st
         = (Throws (if snd (endpoint (exchanges st)) = ExchangeThrows then ExchangeFailed
                    else RefreshFailed sc),
            st\<lparr> exchanges := Suc (exchanges st) \<rparr>)"
  using assms
  by (auto simp: handleUnauthorized_performRefresh performRefresh_def Let_def)

text \<open>
  C9: a successful token refresh stores the new access token, and when its payload omits
  \<open>expires_in\<close>, or reports zero, NaN or an infinity, it leaves the cached expiry unknown
  (a finite non-zero value gives a known expiry). While the expiry is unknown the proactive
  check is false at every instant, and a call of \<open>getAuthorizationHeader\<close> with a cached
  access token returns that token without any token exchange and without changing the state,
  however often and whenever it is called; with a known expiry the same call exchanges from
  one minute before the expiry and answers with the token it obtained. \<open>handleUnauthorized\<close>, which the client calls on a 401, is
  the forced refresh: it performs one token exchange whatever the cached expiry, stores the
  token, refresh token and expiry of a successful answer and reports whether a token is
  cached, and on a failed answer throws and leaves token and expiry as they were.
\<close>

theorem C9_unknown_expiry_never_refreshes_proactively:
  "(snd (endpoint (exchanges st)) = ExchangeOk payload
      \<and> expires_in payload \<in> {None, Some (Num 0), Some NaN, Some PosInf, Some NegInf}
      \<longrightarrow> tokenExpiresAt (snd (performRefresh force endpoint st)) = None
        \<and> accessToken (snd (performRefresh force endpoint st)) = access_token payload)
   \<and> (snd (endpoint (exchanges st)) = ExchangeOk payload
      \<and> expires_in payload = Some (Num e) \<and> e \<noteq> 0
      \<longrightarrow> tokenExpiresAt (snd (performRefresh force endpoint st))
            = Some (fst (endpoint (exchanges st)) + max (e - 60) 0 * 1000))
   \<and> (tokenExpiresAt st = None \<longrightarrow> \<not> shouldRefreshSoon now st)
   \<and> (tokenExpiresAt st = None \<and> accessToken st = Some t \<and> t \<noteq> []
      \<longrightarrow> getAuthorizationHeader endpoint now st = (Returns (''Bearer '' @ t), st)
        \<and> fold (\<lambda>now s. snd (getAuthorizationHeader endpoint now s)) clock st = st)
   \<and> (tokenExpiresAt st = Some x \<and> x \<noteq> 0 \<and> x - 60000 \<le> now
      \<longrightarrow> shouldRefreshSoon now st
        \<and> exchanges (snd (getAuthorizationHeader endpoint now st)) > exchanges st)
   \<and> (tokenExpiresAt st = Some x \<and> x \<noteq> 0 \<and> x - 60000 \<le> now
      \<and> snd (endpoint (exchanges st)) = ExchangeOk payload
      \<and> access_token payload = Some a \<and> a \<noteq> []
      \<longrightarrow> getAuthorizationHeader endpoint now st
          = (Returns (''Bearer '' @ a), snd (performRefresh False endpoint st)))
   \<and> exchanges (snd (handleUnauthorized endpoint st)) = Suc (exchanges st)
   \<and> handleUnauthorized endpoint st
       = (case performRefresh True endpoint st of
            (Throws err, st1) \<Rightarrow> (Throws err, st1)
          | (Returns u, st1) \<Rightarrow> (Returns (truthy (accessToken st1)), st1))
   \<and> (snd (endpoint (exchanges st)) = ExchangeOk payload
      \<longrightarrow> handleUnauthorized endpoint st
          = (Returns (truthy (access_token payload)),
             st\<lparr> exchanges := Suc (exchanges st),
                 accessToken := access_token payload,
                 refreshToken := (if truthy (refresh_token payload)
                                  then the (refresh_token payload) else refreshToken st),
                 tokenExpiresAt :=
                   (case expires_in payload of
                      Some (Num e) \<Rightarrow>
                        if e \<noteq> 0 then Some (fst (endpoint (exchanges st)) + max (e - 60) 0 * 1000)
                        else None
                    | _ \<Rightarrow> None) \<rparr>))
   \<and> (snd (endpoint (exchanges st)) = ExchangeThrows
        \<or> snd (endpoint (exchanges st)) = ExchangeNotOk sc
      \<longrightarrow> handleUnauthorized endpoint st
          = (Throws (if snd (endpoint (exchanges st)) = ExchangeThrows then ExchangeFailed
                     else RefreshFailed sc),
             st\<lparr> exchanges := Suc (exchanges st) \<rparr>))"
proof -
  have a: "snd (endpoint (exchanges st)) = ExchangeOk payload
      \<and> expires_in payload \<in> {None, Some (Num 0), Some NaN, Some PosInf, Some NegInf}
      \<longrightarrow> tokenExpiresAt (snd (performRefresh force endpoint st)) = None
        \<and> accessToken (snd (performRefresh force endpoint st)) = access_token payload"
    using performRefresh_unknown_expiry [of endpoint st payload force]
      performRefresh_ok [of endpoint st payload force] by simp
  have b: "snd (endpoint (exchanges st)) = ExchangeOk payload
      \<and> expires_in payload = Some (Num e) \<and> e \<noteq> 0
      \<longrightarrow> tokenExpiresAt (snd (performRefresh force endpoint st))
            = Some (fst (endpoint (exchanges st)) + max (e - 60) 0 * 1000)"
    using performRefresh_known_expiry [of endpoint st payload e force] by blast
  have c: "tokenExpiresAt st = None \<longrightarrow> \<not> shouldRefreshSoon now st"
    using shouldRefreshSoon_unknown [of st now] by blast
  have d: "tokenExpiresAt st = None \<and> accessToken st = Some t \<and> t \<noteq> []
      \<longrightarrow> getAuthorizationHeader endpoint now st = (Returns (''Bearer '' @ t), st)
        \<and> fold (\<lambda>now s. snd (getAuthorizationHeader endpoint now s)) clock st = st"
    using getAuthorizationHeader_unknown [of st t endpoint now]
      authorize_indefinitely [of st t endpoint clock] by blast
  have f: "tokenExpiresAt st = Some x \<and> x \<noteq> 0 \<and> x - 60000 \<le> now
      \<longrightarrow> shouldRefreshSoon now st
        \<and> exchanges (snd (getAuthorizationHeader endpoint now st)) > exchanges st"
    using getAuthorizationHeader_known [of st x now endpoint] by blast
  have f': "tokenExpiresAt st = Some x \<and> x \<noteq> 0 \<and> x - 60000 \<le> now
      \<and> snd (endpoint (exchanges st)) = ExchangeOk payload
      \<and> access_token payload = Some a \<and> a \<noteq> []
      \<longrightarrow> getAuthorizationHeader endpoint now st
          = (Returns (''Bearer '' @ a), snd (performRefresh False endpoint st))"
    using getAuthorizationHeader_proactive [of st x now endpoint payload a] by blast
  note g = handleUnauthorized_exchanges [of endpoint st]
  note h = handleUnauthorized_performRefresh [of endpoint st]
  have i: "snd (endpoint (exchanges st)) = ExchangeOk payload
      \<longrightarrow> handleUnauthorized endpoint st
          = (Returns (truthy (access_token payload)),
             st\<lparr> exchanges := Suc (exchanges st),
                 accessToken := access_token payload,
                 refreshToken := (if truthy (refresh_token payload)
                                  then the (refresh_token payload) else refreshToken st),
                 tokenExpiresAt :=
                   (case expires_in payload of
                      Some (Num e) \<Rightarrow>
                        if e \<noteq> 0 then Some (fst (endpoint (exchanges st)) + max (e - 60) 0 * 1000)
                        else None
                    | _ \<Rightarrow> None) \<rparr>)"
    using handleUnauthorized_ok [of endpoint st payload] by blast
  have j: "snd (endpoint (exchanges st)) = ExchangeThrows
        \<or> snd (endpoint (exchanges st)) = ExchangeNotOk sc
      \<longrightarrow> handleUnauthorized endpoint st
          = (Throws (if snd (endpoint (exchanges st)) = ExchangeThrows then ExchangeFailed
                     else RefreshFailed sc),
             st\<lparr> exchanges := Suc (exchanges st) \<rparr>)"
    using handleUnauthorized_failed [of endpoint st sc] by blast
  from a b c d f f' g h i j show ?thesis by (intro conjI)
qed

text \<open>
  At the sample state (a token about to expire) the proactive check fires. A forced refresh
  against an endpoint that omits \<open>expires_in\<close> stores the new token with unknown expiry;
  three later calls of \<open>getAuthorizationHeader\<close>, at any distance in time, reuse it and
  exchange nothing; the next forced refresh replaces it.
\<close>

theorem C9_unknown_expiry_never_refreshes_proactively_witness:
  "tokenExpiresAt staleTokenState = Some 5000 \<and> shouldRefreshSoon 2000 staleTokenState
   \<and> exchanges (snd (getAuthorizationHeader noExpiryEndpoint 2000 staleTokenState)) > 0
   \<and> getAuthorizationHeader noExpiryEndpoint 2000 staleTokenState
       = (Returns ''Bearer fresh'',
          \<lparr> accessToken = Some ''fresh'', refreshToken = ''r0'', tokenExpiresAt = None,
            exchanges = 1 \<rparr>)
   \<and> snd (noExpiryEndpoint (exchanges staleTokenState))
       = ExchangeOk \<lparr> access_token = Some ''fresh'', refresh_token = None, expires_in = None \<rparr>
   \<and> tokenExpiresAt (snd (performRefresh False noExpiryEndpoint staleTokenState)) = None
   \<and> handleUnauthorized noExpiryEndpoint staleTokenState
       = (Returns True,
          \<lparr> accessToken = Some ''fresh'', refreshToken = ''r0'', tokenExpiresAt = None,
            exchanges = 1 \<rparr>)
   \<and> \<not> shouldRefreshSoon 99999999
         \<lparr> accessToken = Some ''fresh'', refreshToken = ''r0'', tokenExpiresAt = None,
           exchanges = 1 \<rparr>
   \<and> getAuthorizationHeader noExpiryEndpoint 99999999
         \<lparr> accessToken = Some ''fresh'', refreshToken = ''r0'', tokenExpiresAt = None,
           exchanges = 1 \<rparr>
       = (Returns ''Bearer fresh'',
          \<lparr> accessToken = Some ''fresh'', refreshToken = ''r0'', tokenExpiresAt = None,
            exchanges = 1 \<rparr>)
   \<and> fold (\<lambda>now s. snd (getAuthorizationHeader noExpiryEndpoint now s)) [2000, 99999999, 10 ^ 15]
         \<lparr> accessToken = Some ''fresh'', refreshToken = ''r0'', tokenExpiresAt = None,
           exchanges = 1 \<rparr>
       = \<lparr> accessToken = Some ''fresh'', refreshToken = ''r0'', tokenExpiresAt = None,
           exchanges = 1 \<rparr>
   \<and> handleUnauthorized noExpiryEndpoint
         \<lparr> accessToken = Some ''fresh'', refreshToken = ''r0'', tokenExpiresAt = None,
           exchanges = 1 \<rparr>
       = (Returns True,
          \<lparr> accessToken = Some ''fresher'', refreshToken = ''r1'', tokenExpiresAt = None,
            exchanges = 2 \<rparr>)"
proof -
  let ?p0 = "\<lparr> access_token = Some ''fresh'', refresh_token = None, expires_in = None \<rparr>"
  let ?p1 = "\<lparr> access_token = Some ''fresher'', refresh_token = Some ''r1'', expires_in = None \<rparr>"
  let ?st1 = "\<lparr> accessToken = Some ''fresh'', refreshToken = ''r0'', tokenExpiresAt = None,
                exchanges = 1 \<rparr>"
  let ?st2 = "\<lparr> accessToken = Some ''fresher'', refreshToken = ''r1'', tokenExpiresAt = None,
                exchanges = 2 \<rparr>"
  have e0: "snd (noExpiryEndpoint (exchanges staleTokenState)) = ExchangeOk ?p0"
    by (simp add: noExpiryEndpoint_def staleTokenState_def)
  have e1: "snd (noExpiryEndpoint (exchanges ?st1)) = ExchangeOk ?p1"
    by (simp add: noExpiryEndpoint_def)
  have x: "expires_in ?p0 \<in> {None, Some (Num 0), Some NaN, Some PosInf, Some NegInf}"
    by simp
  have k: "tokenExpiresAt staleTokenState = Some 5000" "(5000::real) \<noteq> 0" "(5000::real) - 60000 \<le> 2000"
    by (simp_all add: staleTokenState_def)
  have u: "tokenExpiresAt ?st1 = None" "accessToken ?st1 = Some ''fresh''" "''fresh'' \<noteq> []"
    by simp_all
  note thm0 = C9_unknown_expiry_never_refreshes_proactively
                [where endpoint = noExpiryEndpoint and st = staleTokenState and payload = ?p0
                   and force = False and x = 5000 and now = 2000 and a = "''fresh''"]
  note thm1 = C9_unknown_expiry_never_refreshes_proactively
                [where endpoint = noExpiryEndpoint and st = ?st1 and payload = ?p1
                   and now = 99999999 and t = "''fresh''" and clock = "[2000, 99999999, 10 ^ 15]"]
  from thm0 k have pro: "shouldRefreshSoon 2000 staleTokenState"
    "exchanges (snd (getAuthorizationHeader noExpiryEndpoint 2000 staleTokenState)) > exchanges staleTokenState"
    by blast+
  have pa: "access_token ?p0 = Some ''fresh''" "''fresh'' \<noteq> []"
    by simp_all
  from thm0 k e0 pa have "getAuthorizationHeader noExpiryEndpoint 2000 staleTokenState
      = (Returns (''Bearer '' @ ''fresh''), snd (performRefresh False noExpiryEndpoint staleTokenState))"
    by blast
  then have g0: "getAuthorizationHeader noExpiryEndpoint 2000 staleTokenState
      = (Returns ''Bearer fresh'', ?st1)"
    by (simp add: performRefresh_def noExpiryEndpoint_def staleTokenState_def truthy_def)
  from thm0 e0 x have unk: "tokenExpiresAt (snd (performRefresh False noExpiryEndpoint staleTokenState)) = None"
    by blast
  from thm0 e0 have "handleUnauthorized noExpiryEndpoint staleTokenState
      = (Returns (truthy (access_token ?p0)),
         staleTokenState\<lparr> exchanges := Suc (exchanges staleTokenState),
             accessToken := access_token ?p0,
             refreshToken := (if truthy (refresh_token ?p0)
                              then the (refresh_token ?p0) else refreshToken staleTokenState),
             tokenExpiresAt :=
               (case expires_in ?p0 of
                  Some (Num e) \<Rightarrow>
                    if e \<noteq> 0
                    then Some (fst (noExpiryEndpoint (exchanges staleTokenState)) + max (e - 60) 0 * 1000)
                    else None
                | _ \<Rightarrow> None) \<rparr>)"
    by blast
  then have h0: "handleUnauthorized noExpiryEndpoint staleTokenState = (Returns True, ?st1)"
    by (simp add: truthy_def staleTokenState_def)
  from thm1 u have reuse: "\<not> shouldRefreshSoon 99999999 ?st1"
    "getAuthorizationHeader noExpiryEndpoint 99999999 ?st1 = (Returns (''Bearer '' @ ''fresh''), ?st1)"
    "fold (\<lambda>now s. snd (getAuthorizationHeader noExpiryEndpoint now s)) [2000, 99999999, 10 ^ 15] ?st1 = ?st1"
    by blast+
  from thm1 e1 have "handleUnauthorized noExpiryEndpoint ?st1
      = (Returns (truthy (access_token ?p1)),
         ?st1\<lparr> exchanges := Suc (exchanges ?st1),
             accessToken := access_token ?p1,
             refreshToken := (if truthy (refresh_token ?p1)
                              then the (refresh_token ?p1) else refreshToken ?st1),
             tokenExpiresAt :=
               (case expires_in ?p1 of
                  Some (Num e) \<Rightarrow>
                    if e \<noteq> 0
                    then Some (fst (noExpiryEndpoint (exchanges ?st1)) + max (e - 60) 0 * 1000)
                    else None
                | _ \<Rightarrow> None) \<rparr>)"
    by blast
  then have h1: "handleUnauthorized noExpiryEndpoint ?st1 = (Returns True, ?st2)"
    by (simp add: truthy_def)
  have z: "exchanges staleTokenState = 0"
    by (simp add: staleTokenState_def)
  from k(1) pro g0 unk e0 h0 reuse h1 z show ?thesis by simp
qed

section \<open>Properties of the retry delay\<close>

text \<open>A numeric hint is multiplied by 1000 and returned as it is.\<close>

lemma retryDelay_numeric:
  "truthy h \<Longrightarrow> toNum (the h) = Some n \<Longrightarrow> retryDelay toNum parse now rnd attempt h = n * 1000"
  by (simp add: retryDelay_def parseRetryAfter_def)

text \<open>A date hint is the distance from now, clamped at zero.\<close>

lemma retryDelay_date:
  "truthy h \<Longrightarrow> toNum (the h) = None \<Longrightarrow> parse (the h) = Some d \<Longrightarrow>
   retryDelay toNum parse now rnd attempt h = real_of_int (max (d - now) 0)"
  by (simp add: retryDelay_def parseRetryAfter_def Let_def max_def)

text \<open>
  C3 (the code at the failing input): for the hint \<^verbatim>\<open>retry-after: -5\<close> the computed delay is
  \<open>-5000\<close> ms, not \<open>max (-5000) 0 = 0\<close>; the numeric branch of \<open>parseRetryAfter\<close> does not
  clamp, unlike its date branch. The client retrying a 429 that carries this hint sleeps for
  the computed \<open>-5000\<close>.
\<close>

theorem C3_negative_numeric_hint_not_clamped:
  "retryDelay (toNumber negativeHintEnv) (dateParse negativeHintEnv) 0 0 0 (Some ''-5'') = - 5000
   \<and> fetchWithRetry defaultClient negativeHintEnv emptyWorld 0
       = (Inr (sampleResponse 200 None None None [1, 2]), \<lparr> requests = 2, slept = [- 5000] \<rparr>)"
  by (simp add: fetchWithRetry.simps negativeHintEnv_def sampleResponse_def defaultClient_def
      emptyWorld_def CanvasClient_constructor_def issue_def sleep_def delayAt_def shouldRetry_def
      retryDelay_def parseRetryAfter_def truthy_def)

section \<open>Properties of fetchWithRetry\<close>

lemma fetchWithRetry_requests:
  "requests (snd (fetchWithRetry client env w attempt))
     \<le> requests w + (maxRetries client - attempt) + 1"
proof (induction client env w attempt rule: fetchWithRetry.induct)
  case (1 client env w attempt)
  show ?case
  proof (cases "physical env (requests w)")
    case AuthorizationThrows
    then show ?thesis by (subst fetchWithRetry.simps) simp
  next
    case FetchThrows
    show ?thesis
    proof (cases "attempt \<ge> maxRetries client")
      case True
      with FetchThrows show ?thesis by (subst fetchWithRetry.simps) (simp add: issue_def)
    next
      case False
      with FetchThrows "1.IH"(1) [OF FetchThrows False] show ?thesis
        by (subst fetchWithRetry.simps) (simp add: issue_def sleep_def)
    qed
  next
    case (Responds response unauthorized)
    show ?thesis
      using Responds "1.IH"(2-4) [OF Responds]
      by (subst fetchWithRetry.simps) (auto simp: issue_def sleep_def)
  qed
qed

lemma shouldRetry_not_401: "shouldRetry 401 = False"
  by (simp add: shouldRetry_def)

lemma fetchWithRetry_budget:
  assumes "\<forall>j<n. retryable (physical env (requests w + j))"
    and "attempt + n \<le> maxRetries client"
    and "physical env (requests w + n) = Responds response unauthorized"
    and "\<not> retryable (Responds response unauthorized)"
  shows "fst (fetchWithRetry client env w attempt) = Inr response
         \<and> requests (snd (fetchWithRetry client env w attempt)) = requests w + n + 1"
  using assms
proof (induction n arbitrary: w attempt)
  case 0
  then show ?case
    by (subst (1 2) fetchWithRetry.simps) (auto simp: retryable_def issue_def)
next
  case (Suc n)
  have r: "retryable (physical env (requests w))"
    using Suc.prems(1) by (metis add.right_neutral zero_less_Suc)
  have a: "attempt < maxRetries client"
    using Suc.prems(2) by simp
  define w1 where "w1 = issue w"
  have rq: "\<And>d. requests (sleep d w1) = Suc (requests w)" "requests w1 = Suc (requests w)"
    by (simp_all add: w1_def issue_def sleep_def)
  have next_eq: "\<exists>w2. requests w2 = Suc (requests w)
      \<and> fetchWithRetry client env w attempt = fetchWithRetry client env w2 (attempt + 1)"
  proof (cases "physical env (requests w)")
    case AuthorizationThrows
    with r show ?thesis by (simp add: retryable_def)
  next
    case FetchThrows
    with a rq show ?thesis
      by (subst fetchWithRetry.simps) (auto simp: w1_def)
  next
    case (Responds resp un)
    with a r rq show ?thesis
      apply (subst fetchWithRetry.simps)
      apply (auto simp: w1_def retryable_def shouldRetry_not_401)
      by (metis Unauthorized.exhaust)+
  qed
  then obtain w2 where w2: "requests w2 = Suc (requests w)"
    and eq: "fetchWithRetry client env w attempt = fetchWithRetry client env w2 (attempt + 1)"
    by blast
  have "fst (fetchWithRetry client env w2 (attempt + 1)) = Inr response
         \<and> requests (snd (fetchWithRetry client env w2 (attempt + 1))) = requests w2 + n + 1"
  proof (rule Suc.IH)
    show "\<forall>j<n. retryable (physical env (requests w2 + j))"
      using Suc.prems(1) w2 by (metis Suc_less_eq add_Suc_shift)
    show "attempt + 1 + n \<le> maxRetries client" using Suc.prems(2) by simp
    show "physical env (requests w2 + n) = Responds response unauthorized"
      using Suc.prems(3) w2 by simp
    show "\<not> retryable (Responds response unauthorized)" by (rule Suc.prems(4))
  qed
  with eq w2 show ?case by simp
qed

lemma getAllLoop_pages:
  "getAllLoop fuel client env w results ids = Some (Inr result, w') \<Longrightarrow>
   data result = results @ concat (map pageRecords (pagesOf fuel client env w))
   \<and> requestIdsOf result = ids @ pageRequestIds (pagesOf fuel client env w)
   \<and> list_all isListPage (pagesOf fuel client env w)
   \<and> pagesOf fuel client env w \<noteq> []
   \<and> result_status result = status (last (pagesOf fuel client env w))
   \<and> result_requestIds result \<noteq> Some []
   \<and> result_requestId result = lastOption (requestIdsOf result)"
proof (induction fuel arbitrary: w results ids)
  case 0
  then show ?case by simp
next
  case (Suc fuel)
  show ?case
  proof (cases "fetchWithRetry client env w 0")
    case (Pair r w1)
    show ?thesis
    proof (cases r)
      case (Inl e)
      with Suc.prems Pair show ?thesis by simp
    next
      case (Inr response)
      show ?thesis
      proof (cases "isListPage response \<and> truthy (link_next response)
                    \<and> validURL env (the (link_next response))")
        case True
        then obtain records where b: "body response = JsonArray records" and ok: "responseOk response"
          by (auto simp: isListPage_def split: Body.splits)
        let ?ids = "(if truthy (x_request_id response) then ids @ [the (x_request_id response)] else ids)"
        from Suc.prems Pair Inr True b ok
        have "getAllLoop fuel client env w1 (results @ records) ?ids = Some (Inr result, w')"
          by (simp add: parsePayload_def Let_def)
        from Suc.IH [OF this] Pair Inr True b show ?thesis
          by (auto simp: pageRecords_def pageRequestIds_def truthy_def split: option.splits)
      next
        case False
        with Suc.prems Pair Inr show ?thesis
          by (auto simp: parsePayload_def Let_def isListPage_def pageRecords_def pageRequestIds_def
                requestIdsOf_def truthy_def split: Body.splits if_splits option.splits)
      qed
    qed
  qed
qed


lemma fetchWithRetry_gives_up:
  assumes "\<forall>j \<le> maxRetries client - attempt. retryable (physical env (requests w + j))"
    and "attempt \<le> maxRetries client"
  shows "requests (snd (fetchWithRetry client env w attempt)) = requests w + (maxRetries client - attempt) + 1"
  using assms
proof (induction client env w attempt rule: fetchWithRetry.induct)
  case (1 client env w attempt)
  have r: "retryable (physical env (requests w))"
    using "1.prems"(1) by (metis add.right_neutral le0)
  have shift: "\<And>w2. requests w2 = Suc (requests w) \<Longrightarrow> attempt < maxRetries client \<Longrightarrow>
     \<forall>j \<le> maxRetries client - (attempt + 1). retryable (physical env (requests w2 + j))"
  proof (intro allI impI)
    fix w2 j
    assume w2: "requests w2 = Suc (requests w)" and a: "attempt < maxRetries client"
      and j: "j \<le> maxRetries client - (attempt + 1)"
    then have "Suc j \<le> maxRetries client - attempt" by simp
    with "1.prems"(1) have "retryable (physical env (requests w + Suc j))" by blast
    with w2 show "retryable (physical env (requests w2 + j))" by simp
  qed
  show ?case
  proof (cases "physical env (requests w)")
    case AuthorizationThrows
    with r show ?thesis by (simp add: retryable_def)
  next
    case FetchThrows
    show ?thesis
    proof (cases "attempt \<ge> maxRetries client")
      case True
      with FetchThrows show ?thesis by (subst fetchWithRetry.simps) (simp add: issue_def)
    next
      case False
      let ?w2 = "sleep (delayAt env w attempt None) (issue w)"
      have rq: "requests ?w2 = Suc (requests w)" by (simp add: issue_def sleep_def)
      from False have a: "attempt < maxRetries client" by simp
      have "requests (snd (fetchWithRetry client env ?w2 (attempt + 1)))
              = requests ?w2 + (maxRetries client - (attempt + 1)) + 1"
        using "1.IH"(1) [OF FetchThrows False shift [OF rq a]] a by simp
      with FetchThrows False a rq show ?thesis
        by (subst fetchWithRetry.simps) simp
    qed
  next
    case (Responds response unauthorized)
    show ?thesis
    proof (cases "attempt \<ge> maxRetries client")
      case True
      with Responds show ?thesis by (subst fetchWithRetry.simps) (simp add: issue_def)
    next
      case False
      then have a: "attempt < maxRetries client" by simp
      let ?w2 = "sleep (delayAt env w attempt None) (issue w)"
      let ?w3 = "issue w"
      let ?w4 = "sleep (delayAt env w attempt (retry_after response)) (issue w)"
      have rq: "requests ?w2 = Suc (requests w)" "requests ?w3 = Suc (requests w)"
               "requests ?w4 = Suc (requests w)" by (simp_all add: issue_def sleep_def)
      consider (thr) "status response = 401" "unauthorized = RefreshThrows"
        | (rfr) "status response = 401" "unauthorized = Refreshed True"
        | (srt) "shouldRetry (status response)" "\<not> status response = 401"
      proof (cases "status response = 401")
        case True
        with r Responds have "unauthorized \<noteq> Refreshed False"
          by (simp add: retryable_def shouldRetry_not_401)
        then have "unauthorized = RefreshThrows \<or> unauthorized = Refreshed True"
          by (cases unauthorized) auto
        with True thr rfr show ?thesis by blast
      next
        case False
        with r Responds have "shouldRetry (status response)"
          by (simp add: retryable_def)
        with False srt show ?thesis by blast
      qed
      then show ?thesis
      proof cases
        case thr
        have "requests (snd (fetchWithRetry client env ?w2 (attempt + 1)))
              = requests ?w2 + (maxRetries client - (attempt + 1)) + 1"
          using "1.IH"(2) [OF Responds _ False shift [OF rq(1) a]] thr a by simp
        with Responds thr a rq show ?thesis
          by (subst fetchWithRetry.simps) simp
      next
        case rfr
        have "requests (snd (fetchWithRetry client env ?w3 (attempt + 1)))
              = requests ?w3 + (maxRetries client - (attempt + 1)) + 1"
          using "1.IH"(3) [OF Responds _ _ shift [OF rq(2) a]] rfr a by simp
        with Responds rfr a rq show ?thesis
          by (subst fetchWithRetry.simps) simp
      next
        case srt
        have "requests (snd (fetchWithRetry client env ?w4 (attempt + 1)))
              = requests ?w4 + (maxRetries client - (attempt + 1)) + 1"
          using "1.IH"(4) [OF Responds _ _ _ shift [OF rq(3) a]] srt a by simp
        with Responds srt a rq show ?thesis
          by (subst fetchWithRetry.simps) simp
      qed
    qed
  qed
qed

lemma getAllLoop_next_page:
  assumes "fst (fetchWithRetry client env w 0) = Inr response"
    and "isListPage response" and "truthy (link_next response)"
    and "validURL env (the (link_next response))"
  shows "getAllLoop (Suc fuel) client env w results ids
         = getAllLoop fuel client env (snd (fetchWithRetry client env w 0))
             (results @ pageRecords response) (ids @ pageRequestIds [response])"
proof -
  from assms(2) obtain records where b: "body response = JsonArray records" and ok: "responseOk response"
    by (auto simp: isListPage_def split: Body.splits)
  from assms(1) have f: "fetchWithRetry client env w 0 = (Inr response, snd (fetchWithRetry client env w 0))"
    by (metis prod.collapse)
  show ?thesis
    apply (simp only: getAllLoop.simps)
    apply (subst f)
    using b ok assms(3,4)
    by (auto simp: parsePayload_def Let_def pageRecords_def pageRequestIds_def truthy_def split: option.splits)
qed

text \<open>A next link that is not a URL ends the call after the page that names it.\<close>

lemma getAllLoop_bad_link:
  assumes "fst (fetchWithRetry client env w 0) = Inr response"
    and "isListPage response" and "truthy (link_next response)"
    and "\<not> validURL env (the (link_next response))"
  shows "getAllLoop (Suc fuel) client env w results ids
         = Some (Inl TypeErr, snd (fetchWithRetry client env w 0))"
proof -
  from assms(2) obtain records where b: "body response = JsonArray records" and ok: "responseOk response"
    by (auto simp: isListPage_def split: Body.splits)
  from assms(1) have f: "fetchWithRetry client env w 0 = (Inr response, snd (fetchWithRetry client env w 0))"
    by (metis prod.collapse)
  show ?thesis
    apply (simp only: getAllLoop.simps)
    apply (subst f)
    using b ok assms(3,4)
    by (simp add: parsePayload_def Let_def)
qed

lemma getAllLoop_fuel_mono:
  "getAllLoop fuel client env w results ids = Some r \<Longrightarrow>
   getAllLoop (fuel + k) client env w results ids = Some r
   \<and> pagesOf (fuel + k) client env w = pagesOf fuel client env w"
proof (induction fuel arbitrary: w results ids)
  case 0
  then show ?case by simp
next
  case (Suc fuel)
  show ?case
  proof (cases "fetchWithRetry client env w 0")
    case (Pair x w1)
    show ?thesis
    proof (cases x)
      case (Inl e)
      with Suc.prems Pair show ?thesis by simp
    next
      case (Inr response)
      show ?thesis
      proof (cases "isListPage response \<and> truthy (link_next response)
                    \<and> validURL env (the (link_next response))")
        case True
        then obtain records where b: "body response = JsonArray records" and ok: "responseOk response"
          by (auto simp: isListPage_def split: Body.splits)
        let ?ids = "(if truthy (x_request_id response) then ids @ [the (x_request_id response)] else ids)"
        from Suc.prems Pair Inr True b ok
        have "getAllLoop fuel client env w1 (results @ records) ?ids = Some r"
          by (simp add: parsePayload_def Let_def)
        from Suc.IH [OF this] Pair Inr True b ok show ?thesis
          by (simp add: parsePayload_def Let_def)
      next
        case False
        with Suc.prems Pair Inr show ?thesis
          by (auto simp: parsePayload_def Let_def isListPage_def split: Body.splits if_splits)
      qed
    qed
  qed
qed

lemma getAllLoop_requests:
  "getAllLoop fuel client env w results ids = Some (Inr result, w') \<Longrightarrow>
   requests w' \<le> requests w + (maxRetries client + 1) * length (pagesOf fuel client env w)"
proof (induction fuel arbitrary: w results ids)
  case 0
  then show ?case by simp
next
  case (Suc fuel)
  show ?case
  proof (cases "fetchWithRetry client env w 0")
    case (Pair x w1)
    have bound: "requests w1 \<le> requests w + (maxRetries client + 1)"
      using fetchWithRetry_requests [of client env w 0] Pair by simp
    show ?thesis
    proof (cases x)
      case (Inl e)
      with Suc.prems Pair show ?thesis by simp
    next
      case (Inr response)
      show ?thesis
      proof (cases "isListPage response \<and> truthy (link_next response)
                    \<and> validURL env (the (link_next response))")
        case True
        then obtain records where b: "body response = JsonArray records" and ok: "responseOk response"
          by (auto simp: isListPage_def split: Body.splits)
        let ?ids = "(if truthy (x_request_id response) then ids @ [the (x_request_id response)] else ids)"
        from Suc.prems Pair Inr True b ok
        have "getAllLoop fuel client env w1 (results @ records) ?ids = Some (Inr result, w')"
          by (simp add: parsePayload_def Let_def)
        from Suc.IH [OF this] bound Pair Inr True show ?thesis
          by simp
      next
        case False
        with Suc.prems Pair Inr have "w' = w1"
          by (auto simp: parsePayload_def Let_def isListPage_def split: Body.splits if_splits)
        with bound Pair Inr False show ?thesis by auto
      qed
    qed
  qed
qed

text \<open>
  C4: with the default client (\<open>maxRetries = 3\<close>) one logical request makes at most 3 retries
  after its first attempt, hence at most 4 physical requests, and gives up after exactly 4
  when every answer is retryable. The attempt counter starts at 0 for every page: from any
  state of the world, whatever earlier pages consumed, up to 3 retryable answers followed
  by a final answer yield that answer; the loop of \<open>getAll\<close> fetches each page with
  \<open>fetchWithRetry \<dots> 0\<close>, going on to the next page when the next link is a URL and ending
  with the \<^verbatim>\<open>TypeError\<close> of \<^verbatim>\<open>new URL\<close> when it is not; and a fetch of \<open>N\<close> pages sends at most
  \<open>4 * N\<close> requests.
\<close>

theorem C4_three_retries_per_page:
  "maxRetries defaultClient = 3
   \<and> requests (snd (fetchWithRetry defaultClient env w 0)) \<le> requests w + 4
   \<and> ((\<forall>j<4. retryable (physical env (requests w + j)))
        \<longrightarrow> requests (snd (fetchWithRetry defaultClient env w 0)) = requests w + 4)
   \<and> ((\<forall>j<n. retryable (physical env (requests w + j))) \<and> n \<le> 3
        \<and> physical env (requests w + n) = Responds response unauthorized
        \<and> \<not> retryable (Responds response unauthorized)
        \<longrightarrow> fst (fetchWithRetry defaultClient env w 0) = Inr response
          \<and> requests (snd (fetchWithRetry defaultClient env w 0)) = requests w + n + 1)
   \<and> (fst (fetchWithRetry defaultClient env w 0) = Inr response \<and> isListPage response
        \<and> truthy (link_next response) \<and> validURL env (the (link_next response))
        \<longrightarrow> getAllLoop (Suc fuel) defaultClient env w results ids
            = getAllLoop fuel defaultClient env (snd (fetchWithRetry defaultClient env w 0))
                (results @ pageRecords response) (ids @ pageRequestIds [response]))
   \<and> (fst (fetchWithRetry defaultClient env w 0) = Inr response \<and> isListPage response
        \<and> truthy (link_next response) \<and> \<not> validURL env (the (link_next response))
        \<longrightarrow> getAllLoop (Suc fuel) defaultClient env w results ids
            = Some (Inl TypeErr, snd (fetchWithRetry defaultClient env w 0)))
   \<and> (getAll defaultClient fuel env w = Some (Inr result, w')
        \<longrightarrow> requests w' \<le> requests w + 4 * length (pagesOf fuel defaultClient env w))"
proof -
  have m: "maxRetries defaultClient = 3"
    by (simp add: defaultClient_def CanvasClient_constructor_def)
  have a: "requests (snd (fetchWithRetry defaultClient env w 0)) \<le> requests w + 4"
    using fetchWithRetry_requests [of defaultClient env w 0] m by simp
  have b: "(\<forall>j<4. retryable (physical env (requests w + j)))
        \<longrightarrow> requests (snd (fetchWithRetry defaultClient env w 0)) = requests w + 4"
  proof
    assume "\<forall>j<4. retryable (physical env (requests w + j))"
    then have "\<forall>j \<le> maxRetries defaultClient - 0. retryable (physical env (requests w + j))"
      using m by simp
    from fetchWithRetry_gives_up [OF this] m
    show "requests (snd (fetchWithRetry defaultClient env w 0)) = requests w + 4"
      by simp
  qed
  have c: "(\<forall>j<n. retryable (physical env (requests w + j))) \<and> n \<le> 3
        \<and> physical env (requests w + n) = Responds response unauthorized
        \<and> \<not> retryable (Responds response unauthorized)
        \<longrightarrow> fst (fetchWithRetry defaultClient env w 0) = Inr response
          \<and> requests (snd (fetchWithRetry defaultClient env w 0)) = requests w + n + 1"
    using fetchWithRetry_budget [of n env w 0 defaultClient response unauthorized] m by simp
  have d: "fst (fetchWithRetry defaultClient env w 0) = Inr response \<and> isListPage response
        \<and> truthy (link_next response) \<and> validURL env (the (link_next response))
        \<longrightarrow> getAllLoop (Suc fuel) defaultClient env w results ids
            = getAllLoop fuel defaultClient env (snd (fetchWithRetry defaultClient env w 0))
                (results @ pageRecords response) (ids @ pageRequestIds [response])"
    using getAllLoop_next_page [of defaultClient env w response fuel results ids] by blast
  have d': "fst (fetchWithRetry defaultClient env w 0) = Inr response \<and> isListPage response
        \<and> truthy (link_next response) \<and> \<not> validURL env (the (link_next response))
        \<longrightarrow> getAllLoop (Suc fuel) defaultClient env w results ids
            = Some (Inl TypeErr, snd (fetchWithRetry defaultClient env w 0))"
    using getAllLoop_bad_link [of defaultClient env w response fuel results ids] by blast
  have e: "getAll defaultClient fuel env w = Some (Inr result, w')
        \<longrightarrow> requests w' \<le> requests w + 4 * length (pagesOf fuel defaultClient env w)"
    using getAllLoop_requests [of fuel defaultClient env w "[]" "[]" result w'] m
    by (simp add: getAll_def)
  from m a b c d d' e show ?thesis by (intro conjI)
qed

lemmas eval_client = fetchWithRetry.simps sampleResponse_def defaultClient_def
  emptyWorld_def CanvasClient_constructor_def issue_def sleep_def delayAt_def shouldRetry_def
  retryDelay_def parseRetryAfter_def truthy_def getAll_def parsePayload_def responseOk_def
  lastOption_def isListPage_def retryable_def sampleValidURL_def eval_nat_numeral

text \<open>
  The first page of the sample upstream is answered at the fourth request, after three
  retries; the second page, fetched from the world those four requests left, again has
  three retries and is answered at the eighth request; \<open>getAll\<close> returns both pages.
\<close>

theorem C4_three_retries_per_page_witness:
  "retryable (physical retryingPagesEnv 0) \<and> retryable (physical retryingPagesEnv 1)
   \<and> retryable (physical retryingPagesEnv 2)
   \<and> fetchWithRetry defaultClient retryingPagesEnv emptyWorld 0
       = (Inr (sampleResponse 200 (Some ''a'') None (Some ''https://canvas/p2'') [1, 2]),
          \<lparr> requests = 4, slept = [250, 500, 1000] \<rparr>)
   \<and> retryable (physical retryingPagesEnv 4) \<and> retryable (physical retryingPagesEnv 5)
   \<and> retryable (physical retryingPagesEnv 6)
   \<and> fst (fetchWithRetry defaultClient retryingPagesEnv \<lparr> requests = 4, slept = [250, 500, 1000] \<rparr> 0)
       = Inr (sampleResponse 200 (Some ''b'') None None [3])
   \<and> requests (snd (fetchWithRetry defaultClient retryingPagesEnv
         \<lparr> requests = 4, slept = [250, 500, 1000] \<rparr> 0)) = 8
   \<and> getAllLoop (Suc 1) defaultClient retryingPagesEnv emptyWorld [] []
       = getAllLoop 1 defaultClient retryingPagesEnv \<lparr> requests = 4, slept = [250, 500, 1000] \<rparr>
           [1, 2] [''a'']
   \<and> getAll defaultClient 2 retryingPagesEnv emptyWorld
       = Some (Inr \<lparr> data = [1, 2, 3], result_status = 200, result_requestId = Some ''b'',
                     result_requestIds = Some [''a'', ''b''] \<rparr>,
               \<lparr> requests = 8, slept = [250, 500, 1000, 250, 500, 1000] \<rparr>)
   \<and> length (pagesOf 2 defaultClient retryingPagesEnv emptyWorld) = 2
   \<and> retryable (physical retryingPagesEnv 8) \<and> retryable (physical retryingPagesEnv 9)
   \<and> retryable (physical retryingPagesEnv 10) \<and> retryable (physical retryingPagesEnv 11)
   \<and> requests (snd (fetchWithRetry defaultClient retryingPagesEnv \<lparr> requests = 8, slept = [] \<rparr> 0)) = 12
   \<and> fetchWithRetry defaultClient relativeLinkEnv emptyWorld 0
       = (Inr (sampleResponse 200 None None (Some ''/api/v1/courses?page=2'') [1, 2]),
          \<lparr> requests = 1, slept = [] \<rparr>)
   \<and> \<not> validURL relativeLinkEnv ''/api/v1/courses?page=2''
   \<and> getAllLoop (Suc 1) defaultClient relativeLinkEnv emptyWorld [] []
       = Some (Inl TypeErr, \<lparr> requests = 1, slept = [] \<rparr>)"
proof -
  let ?w1 = "\<lparr> requests = 4, slept = [250, 500, 1000] \<rparr>"
  let ?w2 = "\<lparr> requests = 8, slept = [] \<rparr>"
  let ?p1 = "sampleResponse 200 (Some ''a'') None (Some ''https://canvas/p2'') [1, 2]"
  let ?p2 = "sampleResponse 200 (Some ''b'') None None [3]"
  have r: "retryable (physical retryingPagesEnv 0)" "retryable (physical retryingPagesEnv 1)"
    "retryable (physical retryingPagesEnv 2)" "retryable (physical retryingPagesEnv 4)"
    "retryable (physical retryingPagesEnv 5)" "retryable (physical retryingPagesEnv 6)"
    "retryable (physical retryingPagesEnv 8)" "retryable (physical retryingPagesEnv 9)"
    "retryable (physical retryingPagesEnv 10)" "retryable (physical retryingPagesEnv 11)"
    by (simp_all add: retryingPagesEnv_def retryable_def sampleResponse_def shouldRetry_def)
  have f1: "fetchWithRetry defaultClient retryingPagesEnv emptyWorld 0 = (Inr ?p1, ?w1)"
    by (simp add: eval_client retryingPagesEnv_def)
  have h1: "\<forall>j<3. retryable (physical retryingPagesEnv (requests ?w1 + j))"
    using r by (auto simp: less_Suc_eq eval_nat_numeral)
  have h2: "physical retryingPagesEnv (requests ?w1 + 3) = Responds ?p2 (Refreshed False)"
    by (simp add: retryingPagesEnv_def)
  have h3: "\<not> retryable (Responds ?p2 (Refreshed False))"
    by (simp add: retryable_def sampleResponse_def shouldRetry_def)
  have h4: "\<forall>j<4. retryable (physical retryingPagesEnv (requests ?w2 + j))"
    using r by (auto simp: less_Suc_eq eval_nat_numeral)
  have pg: "isListPage ?p1" "truthy (link_next ?p1)" "pageRecords ?p1 = [1, 2]"
    "pageRequestIds [?p1] = [''a'']" "validURL retryingPagesEnv (the (link_next ?p1))"
    by (simp_all add: isListPage_def responseOk_def truthy_def pageRecords_def pageRequestIds_def
        sampleResponse_def retryingPagesEnv_def sampleValidURL_def)
  have g: "getAll defaultClient 2 retryingPagesEnv emptyWorld
       = Some (Inr \<lparr> data = [1, 2, 3], result_status = 200, result_requestId = Some ''b'',
                     result_requestIds = Some [''a'', ''b''] \<rparr>,
               \<lparr> requests = 8, slept = [250, 500, 1000, 250, 500, 1000] \<rparr>)"
    by (simp add: eval_client retryingPagesEnv_def)
  have p: "length (pagesOf 2 defaultClient retryingPagesEnv emptyWorld) = 2"
    by (simp add: eval_client retryingPagesEnv_def)
  from C4_three_retries_per_page [of retryingPagesEnv ?w1 3 ?p2 "Refreshed False"] h1 h2 h3
  have second: "fst (fetchWithRetry defaultClient retryingPagesEnv ?w1 0) = Inr ?p2
        \<and> requests (snd (fetchWithRetry defaultClient retryingPagesEnv ?w1 0)) = requests ?w1 + 3 + 1"
    by blast
  from C4_three_retries_per_page [of retryingPagesEnv ?w2] h4
  have gives_up: "requests (snd (fetchWithRetry defaultClient retryingPagesEnv ?w2 0)) = requests ?w2 + 4"
    by blast
  have fs: "fst (fetchWithRetry defaultClient retryingPagesEnv emptyWorld 0) = Inr ?p1"
    and sn: "snd (fetchWithRetry defaultClient retryingPagesEnv emptyWorld 0) = ?w1"
    by (simp_all add: f1)
  have "getAllLoop (Suc 1) defaultClient retryingPagesEnv emptyWorld [] []
       = getAllLoop 1 defaultClient retryingPagesEnv
           (snd (fetchWithRetry defaultClient retryingPagesEnv emptyWorld 0))
           ([] @ pageRecords ?p1) ([] @ pageRequestIds [?p1])"
    using C4_three_retries_per_page [where env = retryingPagesEnv and w = emptyWorld
            and response = ?p1 and fuel = 1 and results = "[]" and ids = "[]"] fs pg(1,2,5)
    by blast
  then have page: "getAllLoop (Suc 1) defaultClient retryingPagesEnv emptyWorld [] []
       = getAllLoop 1 defaultClient retryingPagesEnv ?w1 [1, 2] [''a'']"
    by (simp only: sn pg(3,4) append_Nil)
  let ?p3 = "sampleResponse 200 None None (Some ''/api/v1/courses?page=2'') [1, 2]"
  have f3: "fetchWithRetry defaultClient relativeLinkEnv emptyWorld 0
            = (Inr ?p3, \<lparr> requests = 1, slept = [] \<rparr>)"
    by (simp add: eval_client relativeLinkEnv_def)
  have bad: "isListPage ?p3" "truthy (link_next ?p3)"
    "\<not> validURL relativeLinkEnv (the (link_next ?p3))"
    "\<not> validURL relativeLinkEnv ''/api/v1/courses?page=2''"
    by (simp_all add: isListPage_def responseOk_def truthy_def sampleResponse_def
        relativeLinkEnv_def sampleValidURL_def)
  have fs3: "fst (fetchWithRetry defaultClient relativeLinkEnv emptyWorld 0) = Inr ?p3"
    and sn3: "snd (fetchWithRetry defaultClient relativeLinkEnv emptyWorld 0)
              = \<lparr> requests = 1, slept = [] \<rparr>"
    by (simp_all add: f3)
  have "getAllLoop (Suc 1) defaultClient relativeLinkEnv emptyWorld [] []
       = Some (Inl TypeErr, snd (fetchWithRetry defaultClient relativeLinkEnv emptyWorld 0))"
    using C4_three_retries_per_page [where env = relativeLinkEnv and w = emptyWorld
            and response = ?p3 and fuel = 1 and results = "[]" and ids = "[]"] fs3 bad(1,2,3)
    by blast
  then have stop: "getAllLoop (Suc 1) defaultClient relativeLinkEnv emptyWorld [] []
       = Some (Inl TypeErr, \<lparr> requests = 1, slept = [] \<rparr>)"
    by (simp only: sn3)
  from r f1 g p second gives_up page f3 bad(4) stop show ?thesis by simp
qed

section \<open>Properties of getAll\<close>

text \<open>
  C5 (as stated, refuted): a successful fetch of one page that carries no
  \<^verbatim>\<open>x-request-id\<close> header returns no request-id sequence at all, not a sequence of one
  entry.
\<close>

theorem C5_page_without_request_id:
  "getAll defaultClient 1 noRequestIdEnv emptyWorld
     = Some (Inr \<lparr> data = [1, 2], result_status = 200, result_requestId = None,
                   result_requestIds = None \<rparr>,
             \<lparr> requests = 1, slept = [] \<rparr>)
   \<and> pagesOf 1 defaultClient noRequestIdEnv emptyWorld = [sampleResponse 200 None None None [1, 2]]
   \<and> length (requestIdsOf \<lparr> data = [1, 2], result_status = 200, result_requestId = None,
                             result_requestIds = None \<rparr>)
       \<noteq> length (pagesOf 1 defaultClient noRequestIdEnv emptyWorld)"
  by (simp add: eval_client noRequestIdEnv_def requestIdsOf_def)

text \<open>
  C5 (amended): for every successful paginated fetch spanning \<open>N\<close> pages, the returned records
  are the concatenation of the pages' records in continuation order, and the returned
  request-id sequence holds, in page order, the ids of the pages that carry a non-empty
  \<^verbatim>\<open>x-request-id\<close> header: at most \<open>N\<close> entries, exactly \<open>N\<close> when every page carries one, and
  no sequence at all when none does. The result does not depend on the fuel once it suffices.
\<close>

theorem C5_records_concatenated_ids_of_pages_with_header:
  assumes "getAll client fuel env w = Some (Inr result, w')"
  shows "pagesOf fuel client env w \<noteq> []
   \<and> list_all isListPage (pagesOf fuel client env w)
   \<and> data result = concat (map pageRecords (pagesOf fuel client env w))
   \<and> requestIdsOf result = pageRequestIds (pagesOf fuel client env w)
   \<and> result_requestIds result
       = (if pageRequestIds (pagesOf fuel client env w) = [] then None
          else Some (pageRequestIds (pagesOf fuel client env w)))
   \<and> length (requestIdsOf result) \<le> length (pagesOf fuel client env w)
   \<and> (list_all (\<lambda>p. truthy (x_request_id p)) (pagesOf fuel client env w)
        \<longrightarrow> length (requestIdsOf result) = length (pagesOf fuel client env w))
   \<and> getAll client (fuel + k) env w = Some (Inr result, w')
   \<and> pagesOf (fuel + k) client env w = pagesOf fuel client env w"
proof -
  from assms have loop: "getAllLoop fuel client env w [] [] = Some (Inr result, w')"
    by (simp add: getAll_def)
  note pg = getAllLoop_pages [OF loop]
  note mono = getAllLoop_fuel_mono [OF loop, of k]
  let ?pages = "pagesOf fuel client env w"
  have ids: "requestIdsOf result = pageRequestIds ?pages"
    using pg by simp
  have opt: "result_requestIds result
       = (if pageRequestIds ?pages = [] then None else Some (pageRequestIds ?pages))"
    using pg ids by (cases "result_requestIds result") (auto simp: requestIdsOf_def)
  have len: "length (requestIdsOf result) \<le> length ?pages"
    by (simp add: ids pageRequestIds_def)
  have full: "list_all (\<lambda>p. truthy (x_request_id p)) ?pages
        \<longrightarrow> length (requestIdsOf result) = length ?pages"
    by (simp add: ids pageRequestIds_def list_all_iff)
  from pg ids opt len full mono show ?thesis
    by (simp add: getAll_def)
qed

theorem C5_records_concatenated_ids_of_pages_with_header_witness:
  "getAll defaultClient 2 retryingPagesEnv emptyWorld
     = Some (Inr \<lparr> data = [1, 2, 3], result_status = 200, result_requestId = Some ''b'',
                   result_requestIds = Some [''a'', ''b''] \<rparr>,
             \<lparr> requests = 8, slept = [250, 500, 1000, 250, 500, 1000] \<rparr>)
   \<and> pagesOf 2 defaultClient retryingPagesEnv emptyWorld
       = [sampleResponse 200 (Some ''a'') None (Some ''https://canvas/p2'') [1, 2],
          sampleResponse 200 (Some ''b'') None None [3]]
   \<and> [1, 2, 3] = concat (map pageRecords (pagesOf 2 defaultClient retryingPagesEnv emptyWorld))
   \<and> [''a'', ''b''] = pageRequestIds (pagesOf 2 defaultClient retryingPagesEnv emptyWorld)
   \<and> list_all (\<lambda>p. truthy (x_request_id p)) (pagesOf 2 defaultClient retryingPagesEnv emptyWorld)
   \<and> length [''a'', ''b''] = length (pagesOf 2 defaultClient retryingPagesEnv emptyWorld)
   \<and> getAll defaultClient (2 + 5) retryingPagesEnv emptyWorld
       = getAll defaultClient 2 retryingPagesEnv emptyWorld"
proof -
  let ?r = "\<lparr> data = [1, 2, 3], result_status = 200, result_requestId = Some ''b'',
             result_requestIds = Some [''a'', ''b''] \<rparr> :: nat CanvasResult"
  let ?pages = "pagesOf 2 defaultClient retryingPagesEnv emptyWorld"
  have g: "getAll defaultClient 2 retryingPagesEnv emptyWorld
     = Some (Inr ?r, \<lparr> requests = 8, slept = [250, 500, 1000, 250, 500, 1000] \<rparr>)"
    by (simp add: eval_client retryingPagesEnv_def)
  have p: "?pages
       = [sampleResponse 200 (Some ''a'') None (Some ''https://canvas/p2'') [1, 2],
          sampleResponse 200 (Some ''b'') None None [3]]"
    by (simp add: eval_client retryingPagesEnv_def)
  have a: "list_all (\<lambda>p. truthy (x_request_id p)) ?pages"
    unfolding p by (simp add: truthy_def sampleResponse_def)
  have rr: "data ?r = [1, 2, 3]" "requestIdsOf ?r = [''a'', ''b'']"
    by (simp_all add: requestIdsOf_def)
  note k = C5_records_concatenated_ids_of_pages_with_header [OF g, of 5]
  from k have c1: "[1, 2, 3] = concat (map pageRecords ?pages)"
    unfolding rr by blast
  from k have c2: "[''a'', ''b''] = pageRequestIds ?pages"
    unfolding rr by blast
  from k a have c3: "length [''a'', ''b''] = length ?pages"
    unfolding rr by blast
  from k have "getAll defaultClient (2 + 5) retryingPagesEnv emptyWorld
     = Some (Inr ?r, \<lparr> requests = 8, slept = [250, 500, 1000, 250, 500, 1000] \<rparr>)"
    by blast
  then have c4: "getAll defaultClient (2 + 5) retryingPagesEnv emptyWorld
       = getAll defaultClient 2 retryingPagesEnv emptyWorld"
    by (simp only: g)
  from g p c1 c2 a c3 c4 show ?thesis by blast
qed

section \<open>Properties of the map keyed by id\<close>

lemma keys_mapSet:
  "map fst (mapSet k v m) = (if k \<in> set (map fst m) then map fst m else map fst m @ [k])"
proof (induction m)
  case Nil
  show ?case by simp
next
  case (Cons p m)
  obtain k' v' where p: "p = (k', v')" by (cases p)
  show ?case
  proof (cases "k' = k")
    case True
    with p show ?thesis by simp
  next
    case False
    with p Cons.IH show ?thesis by simp
  qed
qed

lemma map_of_mapSet: "map_of (mapSet k v m) = (map_of m)(k \<mapsto> v)"
  by (induction m) (auto simp: fun_eq_iff)

lemma set_mapSet: "set (mapSet k v m) \<subseteq> insert (k, v) (set m)"
  by (induction m) (auto split: if_splits)

lemma wfMap_mapSet:
  assumes "wfMap m"
  shows "wfMap (mapSet (item_id u) u m)"
proof -
  have d: "distinct (map fst (mapSet (item_id u) u m))"
    using assms by (simp add: wfMap_def keys_mapSet)
  have "\<forall>p \<in> set (mapSet (item_id u) u m). item_id (snd p) = fst p"
  proof
    fix p assume "p \<in> set (mapSet (item_id u) u m)"
    with set_mapSet [of "item_id u" u m] have "p = (item_id u, u) \<or> p \<in> set m" by blast
    with assms show "item_id (snd p) = fst p" by (auto simp: wfMap_def)
  qed
  with d show ?thesis by (simp add: wfMap_def)
qed

lemma wfMap_insertTodo: "wfMap m \<Longrightarrow> wfMap (insertTodo u m)"
  by (simp add: insertTodo_def wfMap_mapSet)

lemma wfMap_insertAssignment: "wfMap m \<Longrightarrow> wfMap (insertAssignment u m)"
  by (simp add: insertAssignment_def wfMap_mapSet)

lemma wfMap_values_by_id:
  "wfMap m \<Longrightarrow>
   filter (\<lambda>u. item_id u = i) (mapValues m) = (case map_of m i of Some v \<Rightarrow> [v] | None \<Rightarrow> [])"
proof (induction m)
  case Nil
  then show ?case by (simp add: mapValues_def)
next
  case (Cons p m)
  obtain k v where p: "p = (k, v)" by (cases p)
  from Cons.prems have wf: "wfMap m" and kv: "item_id v = k" and nk: "k \<notin> set (map fst m)"
    by (simp_all add: wfMap_def p)
  from nk have none: "map_of m k = None"
    by (simp add: map_of_eq_None_iff)
  have "\<forall>u \<in> set (map snd m). item_id u \<noteq> k"
  proof
    fix u assume "u \<in> set (map snd m)"
    then obtain q where q: "q \<in> set m" "u = snd q" by auto
    with wf have "item_id u = fst q" by (simp add: wfMap_def)
    with q nk show "item_id u \<noteq> k" by auto
  qed
  then have e: "filter (\<lambda>u. item_id u = k) (map snd m) = []"
    by (simp add: filter_empty_conv)
  show ?case
  proof (cases "i = k")
    case True
    with e kv none show ?thesis by (simp add: mapValues_def p)
  next
    case False
    with Cons.IH [OF wf] kv show ?thesis by (simp add: mapValues_def p)
  qed
qed

section \<open>The loops as folds over the feed entries\<close>

lemma fold_option_map_filter:
  "fold (\<lambda>x s. case f x of None \<Rightarrow> s | Some y \<Rightarrow> g y s) xs s = fold g (List.map_filter f xs) s"
  by (induction xs arbitrary: s) (auto simp: map_filter_simps split: option.splits)

lemma todosLoop_feed:
  "todosLoop parse now rangeEnd todos m = fold insertTodo (todoFeedEntries parse now rangeEnd todos) m"
  by (simp add: todosLoop_def todoFeedEntries_def fold_option_map_filter)

lemma assignmentsLoop_feed:
  "assignmentsLoop parse now rangeEnd course assignments m
     = fold insertAssignment (List.map_filter (assignmentEntry parse now rangeEnd course) assignments) m"
  by (simp add: assignmentsLoop_def fold_option_map_filter)

lemma coursesLoop_feed:
  "coursesLoop parse now rangeEnd fetch courses st = Inr st' \<Longrightarrow>
   upcomingMap st' = fold insertAssignment (assignmentFeedEntries parse now rangeEnd fetch courses) (upcomingMap st)"
proof (induction courses arbitrary: st)
  case Nil
  then show ?case by (simp add: assignmentFeedEntries_def)
next
  case (Cons course rest)
  show ?case
  proof (cases "fetch (raw_id course)")
    case (Inl error)
    with Cons.prems have "coursesLoop parse now rangeEnd fetch rest st = Inr st'"
      by (simp split: if_splits)
    from Cons.IH [OF this] Inl show ?thesis
      by (simp add: assignmentFeedEntries_def)
  next
    case (Inr res)
    let ?st = "(pushMeta res st)\<lparr> upcomingMap :=
                assignmentsLoop parse now rangeEnd course (data res) (upcomingMap st) \<rparr>"
    from Cons.prems Inr have "coursesLoop parse now rangeEnd fetch rest ?st = Inr st'"
      by simp
    from Cons.IH [OF this] Inr show ?thesis
      by (simp add: assignmentFeedEntries_def assignmentsLoop_feed)
  qed
qed

lemma map_of_fold_insertTodo:
  "map_of (fold insertTodo us m) i
     = (if filter (\<lambda>u. item_id u = i) us = [] then map_of m i
        else Some (last (filter (\<lambda>u. item_id u = i) us)))"
  by (induction us arbitrary: m) (auto simp: insertTodo_def map_of_mapSet)

lemma mapHas_map_of: "mapHas k m \<longleftrightarrow> map_of m k \<noteq> None"
  by (simp add: mapHas_def map_of_eq_None_iff)

lemma map_of_insertAssignment:
  "map_of (insertAssignment u m) i
     = (if map_of m i = None \<and> item_id u = i then Some u else map_of m i)"
  by (auto simp: insertAssignment_def mapHas_map_of map_of_mapSet)

lemma map_of_fold_insertAssignment:
  "map_of (fold insertAssignment us m) i
     = (if map_of m i \<noteq> None \<or> filter (\<lambda>u. item_id u = i) us = [] then map_of m i
        else Some (hd (filter (\<lambda>u. item_id u = i) us)))"
  by (induction us arbitrary: m) (auto simp: map_of_insertAssignment)

lemma keys_insertTodo:
  "map fst (insertTodo u m)
     = (if item_id u \<in> set (map fst m) then map fst m else map fst m @ [item_id u])"
  by (simp add: insertTodo_def keys_mapSet)

lemma keys_insertAssignment:
  "map fst (insertAssignment u m)
     = (if item_id u \<in> set (map fst m) then map fst m else map fst m @ [item_id u])"
  by (simp add: insertAssignment_def keys_mapSet mapHas_def)

lemma set_firstOccurrences: "set (firstOccurrences xs) = set xs"
  by (induction xs) auto

lemma firstOccurrences_distinct: "distinct xs \<Longrightarrow> firstOccurrences xs = xs"
  by (induction xs) (auto simp: set_firstOccurrences)

lemma firstOccurrences_filter: "firstOccurrences (filter P xs) = filter P (firstOccurrences xs)"
proof (induction xs)
  case Nil
  show ?case by simp
next
  case (Cons x xs)
  have swap: "removeAll x (filter P (firstOccurrences xs)) = filter P (removeAll x (firstOccurrences xs))"
    by (simp add: removeAll_filter_not_eq conj_commute)
  show ?case
  proof (cases "P x")
    case True
    with Cons.IH swap show ?thesis by simp
  next
    case False
    then have "filter P (removeAll x (firstOccurrences xs)) = filter P (firstOccurrences xs)"
      by (auto simp: removeAll_filter_not_eq intro: filter_cong)
    with False Cons.IH show ?thesis by simp
  qed
qed

lemma keys_fold_insert_new:
  assumes step: "\<And>u m. map fst (ins u m)
     = (if item_id u \<in> set (map fst m) then map fst m else map fst m @ [item_id u])"
  shows "map fst (fold ins us m)
     = map fst m @ firstOccurrences (filter (\<lambda>k. k \<notin> set (map fst m)) (map item_id us))"
proof (induction us arbitrary: m)
  case Nil
  show ?case by simp
next
  case (Cons u us)
  show ?case
  proof (cases "item_id u \<in> set (map fst m)")
    case True
    then have "map fst (ins u m) = map fst m" by (simp add: step)
    with Cons.IH [of "ins u m"] True show ?thesis by simp
  next
    case False
    then have k: "map fst (ins u m) = map fst m @ [item_id u]" by (simp add: step)
    have "filter (\<lambda>k. k \<notin> set (map fst m @ [item_id u])) (map item_id us)
          = filter (\<lambda>k. k \<noteq> item_id u) (filter (\<lambda>k. k \<notin> set (map fst m)) (map item_id us))"
      by (auto intro: filter_cong)
    then have "firstOccurrences (filter (\<lambda>k. k \<notin> set (map fst m @ [item_id u])) (map item_id us))
          = removeAll (item_id u)
              (firstOccurrences (filter (\<lambda>k. k \<notin> set (map fst m)) (map item_id us)))"
      by (simp add: firstOccurrences_filter removeAll_filter_not_eq) (auto intro: filter_cong)
    with Cons.IH [of "ins u m"] k False show ?thesis by simp
  qed
qed

lemma wfMap_fold_insertTodo: "wfMap m \<Longrightarrow> wfMap (fold insertTodo us m)"
  by (induction us arbitrary: m) (simp_all add: wfMap_insertTodo)

lemma wfMap_fold_insertAssignment: "wfMap m \<Longrightarrow> wfMap (fold insertAssignment us m)"
  by (induction us arbitrary: m) (simp_all add: wfMap_insertAssignment)

lemma values_via_keys:
  "distinct (map fst m) \<Longrightarrow> mapValues m = map (\<lambda>k. the (map_of m k)) (map fst m)"
proof (induction m)
  case Nil
  show ?case by (simp add: mapValues_def)
next
  case (Cons p m)
  obtain k v where p: "p = (k, v)" by (cases p)
  from Cons.prems p have nk: "k \<notin> set (map fst m)" and d: "distinct (map fst m)" by simp_all
  have "map (\<lambda>x. the (map_of (p # m) x)) (map fst m) = map (\<lambda>x. the (map_of m x)) (map fst m)"
    using nk by (intro map_cong) (auto simp: p)
  with Cons.IH [OF d] show ?case by (simp add: mapValues_def p)
qed

lemma wfMap_mergedMap: "wfMap (mergedMap TE AE)"
proof -
  have "wfMap []" by (simp add: wfMap_def)
  then show ?thesis
    unfolding mergedMap_def by (intro wfMap_fold_insertAssignment wfMap_fold_insertTodo)
qed

lemma keys_mergedMap:
  "map fst (mergedMap TE AE)
     = firstOccurrences (map item_id TE)
       @ firstOccurrences (filter (\<lambda>k. k \<notin> item_id ` set TE) (map item_id AE))"
proof -
  have t: "map fst (fold insertTodo TE []) = firstOccurrences (map item_id TE)"
    using keys_fold_insert_new [of insertTodo TE "[]"] by (simp add: keys_insertTodo)
  have "map fst (mergedMap TE AE) = map fst (fold insertTodo TE [])
          @ firstOccurrences (filter (\<lambda>k. k \<notin> set (map fst (fold insertTodo TE []))) (map item_id AE))"
    unfolding mergedMap_def
    using keys_fold_insert_new [of insertAssignment AE "fold insertTodo TE []"]
    by (simp add: keys_insertAssignment)
  then show ?thesis by (simp add: t set_firstOccurrences)
qed

lemma map_of_mergedMap:
  "map_of (mergedMap TE AE) i
     = (if filter (\<lambda>u. item_id u = i) TE \<noteq> [] then Some (last (filter (\<lambda>u. item_id u = i) TE))
        else if filter (\<lambda>u. item_id u = i) AE \<noteq> [] then Some (hd (filter (\<lambda>u. item_id u = i) AE))
        else None)"
  by (simp add: mergedMap_def map_of_fold_insertAssignment map_of_fold_insertTodo)

lemma filter_id_nonempty: "filter (\<lambda>u. item_id u = i) xs \<noteq> [] \<longleftrightarrow> i \<in> item_id ` set xs"
  by (auto simp: filter_empty_conv)

lemma values_mergedMap:
  "mapValues (mergedMap TE AE)
     = map (\<lambda>k. last (filter (\<lambda>u. item_id u = k) TE)) (firstOccurrences (map item_id TE))
       @ map (\<lambda>k. hd (filter (\<lambda>u. item_id u = k) AE))
           (firstOccurrences (filter (\<lambda>k. k \<notin> item_id ` set TE) (map item_id AE)))"
proof -
  have d: "distinct (map fst (mergedMap TE AE))"
    using wfMap_mergedMap [of TE AE] by (simp add: wfMap_def)
  have a: "map (\<lambda>k. the (map_of (mergedMap TE AE) k)) (firstOccurrences (map item_id TE))
           = map (\<lambda>k. last (filter (\<lambda>u. item_id u = k) TE)) (firstOccurrences (map item_id TE))"
    by (intro map_cong) (auto simp: map_of_mergedMap set_firstOccurrences filter_id_nonempty)
  have b: "map (\<lambda>k. the (map_of (mergedMap TE AE) k))
             (firstOccurrences (filter (\<lambda>k. k \<notin> item_id ` set TE) (map item_id AE)))
           = map (\<lambda>k. hd (filter (\<lambda>u. item_id u = k) AE))
             (firstOccurrences (filter (\<lambda>k. k \<notin> item_id ` set TE) (map item_id AE)))"
    by (intro map_cong) (auto simp: map_of_mergedMap set_firstOccurrences filter_id_nonempty)
  show ?thesis
    by (simp add: values_via_keys [OF d] keys_mergedMap a b)
qed

lemma distinct_filter_single:
  "distinct (map f xs) \<Longrightarrow> x \<in> set xs \<Longrightarrow> filter (\<lambda>u. f u = f x) xs = [x]"
proof (induction xs)
  case Nil
  then show ?case by simp
next
  case (Cons y ys)
  show ?case
  proof (cases "x = y")
    case True
    from Cons.prems(1) have "\<forall>u \<in> set ys. f u \<noteq> f y" by (auto simp: image_iff)
    then have "filter (\<lambda>u. f u = f y) ys = []" by (simp add: filter_empty_conv)
    with True show ?thesis by simp
  next
    case False
    with Cons.prems have x: "x \<in> set ys" and d: "distinct (map f ys)" by simp_all
    from Cons.prems(1) x have "f y \<noteq> f x" by (auto simp: image_iff)
    with Cons.IH [OF d x] show ?thesis by simp
  qed
qed

lemma values_mergedMap_distinct:
  assumes "distinct (map item_id TE)" and "distinct (map item_id AE)"
  shows "mapValues (mergedMap TE AE) = TE @ filter (\<lambda>u. item_id u \<notin> item_id ` set TE) AE"
proof -
  have a: "map (\<lambda>k. last (filter (\<lambda>u. item_id u = k) TE)) (map item_id TE) = TE"
    using distinct_filter_single [OF assms(1)] by (auto intro!: map_idI)
  let ?F = "filter (\<lambda>u. item_id u \<notin> item_id ` set TE) AE"
  have f: "filter (\<lambda>k. k \<notin> item_id ` set TE) (map item_id AE) = map item_id ?F"
    by (simp add: filter_map comp_def)
  have df: "distinct (map item_id ?F)"
    using assms(2) by (simp add: distinct_map_filter)
  have "map (\<lambda>k. hd (filter (\<lambda>u. item_id u = k) AE)) (map item_id ?F) = ?F"
  proof -
    have "\<forall>x \<in> set ?F. hd (filter (\<lambda>u. item_id u = item_id x) AE) = x"
      using distinct_filter_single [OF assms(2)] by simp
    then show ?thesis by (auto intro!: map_idI)
  qed
  with a f df assms(1) show ?thesis
    by (simp add: values_mergedMap firstOccurrences_distinct)
qed

section \<open>Properties of the final sort\<close>

lemma mset_insertSorted: "mset (insertSorted cmp x ys) = add_mset x (mset ys)"
  by (induction ys) auto

lemma mset_jsSort: "mset (jsSort cmp xs) = mset xs"
  by (induction xs) (simp_all add: jsSort_def mset_insertSorted)

lemma set_jsSort: "set (jsSort cmp xs) = set xs"
  by (metis mset_jsSort set_mset_mset)

lemma jsPositive_jsSub: "a \<noteq> NaN \<Longrightarrow> b \<noteq> NaN \<Longrightarrow> jsPositive (jsSub a b) \<longleftrightarrow> \<not> jsLe a b"
  by (cases a; cases b) auto

lemma jsLe_refl: "a \<noteq> NaN \<Longrightarrow> jsLe a a"
  by (cases a) auto

lemma jsLe_total: "a \<noteq> NaN \<Longrightarrow> b \<noteq> NaN \<Longrightarrow> jsLe a b \<or> jsLe b a"
  by (cases a; cases b) auto

lemma jsLe_trans: "jsLe a b \<Longrightarrow> jsLe b c \<Longrightarrow> jsLe a c"
  by (cases a; cases b; cases c) auto

lemma set_insertSorted: "set (insertSorted cmp x ys) = insert x (set ys)"
  by (metis mset_insertSorted set_mset_add_mset_insert set_mset_mset)

lemma sorted_insertSorted:
  assumes "\<forall>z \<in> set (x # ys). key z \<noteq> NaN"
    and "sorted_wrt (\<lambda>a b. jsLe (key a) (key b)) ys"
  shows "sorted_wrt (\<lambda>a b. jsLe (key a) (key b)) (insertSorted (\<lambda>a b. jsSub (key a) (key b)) x ys)"
  using assms
proof (induction ys)
  case Nil
  show ?case by simp
next
  case (Cons y ys)
  from Cons.prems have nx: "key x \<noteq> NaN" and ny: "key y \<noteq> NaN" by simp_all
  show ?case
  proof (cases "jsLe (key x) (key y)")
    case True
    with Cons.prems(2) have "\<forall>z \<in> set (y # ys). jsLe (key x) (key z)"
      by (auto intro: jsLe_trans)
    with True Cons.prems(2) nx ny show ?thesis
      by (simp add: jsPositive_jsSub)
  next
    case False
    with nx ny have yx: "jsLe (key y) (key x)" using jsLe_total by blast
    have "sorted_wrt (\<lambda>a b. jsLe (key a) (key b)) (insertSorted (\<lambda>a b. jsSub (key a) (key b)) x ys)"
      using Cons.IH Cons.prems by simp
    with False yx Cons.prems(2) nx ny show ?thesis
      by (simp add: jsPositive_jsSub set_insertSorted)
  qed
qed

lemma sorted_jsSort:
  "\<forall>z \<in> set xs. key z \<noteq> NaN \<Longrightarrow>
   sorted_wrt (\<lambda>a b. jsLe (key a) (key b)) (jsSort (\<lambda>a b. jsSub (key a) (key b)) xs)"
proof (induction xs)
  case Nil
  show ?case by (simp add: jsSort_def)
next
  case (Cons x xs)
  then have "sorted_wrt (\<lambda>a b. jsLe (key a) (key b)) (jsSort (\<lambda>a b. jsSub (key a) (key b)) xs)"
    by simp
  moreover have "\<forall>z \<in> set (x # jsSort (\<lambda>a b. jsSub (key a) (key b)) xs). key z \<noteq> NaN"
    using Cons.prems by (simp add: set_jsSort)
  ultimately have "sorted_wrt (\<lambda>a b. jsLe (key a) (key b))
      (insertSorted (\<lambda>a b. jsSub (key a) (key b)) x (jsSort (\<lambda>a b. jsSub (key a) (key b)) xs))"
    by (intro sorted_insertSorted)
  then show ?case by (simp add: jsSort_def)
qed

lemma filter_insertSorted:
  assumes "\<forall>z \<in> set (x # ys). key z \<noteq> NaN"
  shows "filter (\<lambda>z. key z = t) (insertSorted (\<lambda>a b. jsSub (key a) (key b)) x ys)
         = filter (\<lambda>z. key z = t) (x # ys)"
  using assms
proof (induction ys)
  case Nil
  show ?case by simp
next
  case (Cons y ys)
  from Cons.prems have nx: "key x \<noteq> NaN" and ny: "key y \<noteq> NaN" by simp_all
  show ?case
  proof (cases "jsLe (key x) (key y)")
    case True
    with nx ny show ?thesis by (simp add: jsPositive_jsSub)
  next
    case False
    with nx have ne: "key x \<noteq> key y" using jsLe_refl by metis
    have "filter (\<lambda>z. key z = t) (insertSorted (\<lambda>a b. jsSub (key a) (key b)) x ys)
          = filter (\<lambda>z. key z = t) (x # ys)"
      using Cons.IH Cons.prems by simp
    with False ne nx ny show ?thesis
      by (auto simp: jsPositive_jsSub)
  qed
qed

lemma filter_jsSort:
  "\<forall>z \<in> set xs. key z \<noteq> NaN \<Longrightarrow>
   filter (\<lambda>z. key z = t) (jsSort (\<lambda>a b. jsSub (key a) (key b)) xs) = filter (\<lambda>z. key z = t) xs"
proof (induction xs)
  case Nil
  show ?case by (simp add: jsSort_def)
next
  case (Cons x xs)
  have "\<forall>z \<in> set (x # jsSort (\<lambda>a b. jsSub (key a) (key b)) xs). key z \<noteq> NaN"
    using Cons.prems by (simp add: set_jsSort)
  from filter_insertSorted [OF this, of t] Cons show ?case
    by (simp add: jsSort_def)
qed

lemma todoEntry_dueTime:
  assumes "todoEntry parse now rangeEnd t = Some u"
  shows "\<exists>\<tau>. dueTime parse u = Num \<tau> \<and> now \<le> \<tau> \<and> \<tau> \<le> rangeEnd"
  using assms
  by (auto simp: todoEntry_def Let_def isWithinRange_def dueTime_def mapUpcomingFromAssignment_def
      split: option.splits if_splits)

lemma todoEntry_source: "todoEntry parse now rangeEnd t = Some u \<Longrightarrow> source u = Todo"
  by (auto simp: todoEntry_def Let_def mapUpcomingFromAssignment_def split: option.splits if_splits)

lemma assignmentEntry_dueTime:
  assumes "assignmentEntry parse now rangeEnd course a = Some u"
  shows "dueTime parse u = PosInf \<or> (\<exists>\<tau>. dueTime parse u = Num \<tau> \<and> now \<le> \<tau> \<and> \<tau> \<le> rangeEnd)"
  using assms
  by (auto simp: assignmentEntry_def Let_def isWithinRange_def dueTime_def mapUpcomingFromAssignment_def
      split: option.splits if_splits)

lemma set_map_filter_iff: "y \<in> set (List.map_filter f xs) \<longleftrightarrow> (\<exists>x \<in> set xs. f x = Some y)"
  by (induction xs) (auto simp: map_filter_simps split: option.splits)

lemma todoFeedEntries_set:
  "u \<in> set (todoFeedEntries parse now rangeEnd todos) \<Longrightarrow>
   \<exists>t \<in> set todos. todoEntry parse now rangeEnd t = Some u"
  by (simp add: todoFeedEntries_def set_map_filter_iff)

lemma assignmentFeedEntries_set:
  "u \<in> set (assignmentFeedEntries parse now rangeEnd fetch courses) \<Longrightarrow>
   \<exists>course a. assignmentEntry parse now rangeEnd course a = Some u"
  by (auto simp: assignmentFeedEntries_def set_map_filter_iff split: sum.splits)

lemma last_filter_in_set: "filter P xs \<noteq> [] \<Longrightarrow> last (filter P xs) \<in> set xs"
  using last_in_set [of "filter P xs"] by auto

lemma hd_filter_in_set: "filter P xs \<noteq> [] \<Longrightarrow> hd (filter P xs) \<in> set xs"
  using hd_in_set [of "filter P xs"] by auto

lemma set_values_mergedMap: "set (mapValues (mergedMap TE AE)) \<subseteq> set TE \<union> set AE"
proof
  fix v assume "v \<in> set (mapValues (mergedMap TE AE))"
  then obtain k where "(k, v) \<in> set (mergedMap TE AE)"
    by (auto simp: mapValues_def)
  with wfMap_mergedMap [of TE AE] have "map_of (mergedMap TE AE) k = Some v"
    by (simp add: wfMap_def)
  then show "v \<in> set TE \<union> set AE"
    using last_filter_in_set [of "\<lambda>u. item_id u = k" TE] hd_filter_in_set [of "\<lambda>u. item_id u = k" AE]
    by (auto simp: map_of_mergedMap split: if_splits)
qed

section \<open>Properties of the aggregation\<close>

lemma compareDue_eq: "compareDue parse = (\<lambda>a b. jsSub (dueTime parse a) (dueTime parse b))"
  by (simp add: compareDue_def fun_eq_iff)

lemma buildUpcoming_map:
  assumes "buildUpcoming parse now rangeEnd deps = Inr st"
    and "getTodo deps = Inr todoResult" and "getCourses deps = Inr coursesResult"
  shows "upcomingMap st
         = mergedMap (todoFeedEntries parse now rangeEnd (data todoResult))
             (assignmentFeedEntries parse now rangeEnd (getAssignments deps) (data coursesResult))"
proof -
  let ?st0 = "pushMeta todoResult \<lparr> upcomingMap = [], metaRequestIds = [], metaStatuses = [] \<rparr>"
  let ?st1 = "?st0\<lparr> upcomingMap := todosLoop parse now rangeEnd (data todoResult) (upcomingMap ?st0) \<rparr>"
  from assms have "coursesLoop parse now rangeEnd (getAssignments deps) (data coursesResult)
                     (pushMeta coursesResult ?st1) = Inr st"
    by (simp add: buildUpcoming_def Let_def)
  from coursesLoop_feed [OF this] show ?thesis
    by (simp add: pushMeta_def todosLoop_feed mergedMap_def)
qed

lemma listUpcoming_Inr:
  assumes "listUpcoming parse now days deps = Inr (upcoming, meta)"
  shows "\<exists>st. buildUpcoming parse now (rangeEndOf now days) deps = Inr st
          \<and> upcoming = jsSort (compareDue parse) (mapValues (upcomingMap st))"
  using assms
  by (auto simp: listUpcoming_def listUpcomingOutputSchema_parse_def rangeEndOf_def Let_def
      split: sum.splits if_splits)

lemma listUpcoming_sorted_values:
  assumes "listUpcoming parse now days deps = Inr (upcoming, meta)"
    and "getTodo deps = Inr todoResult" and "getCourses deps = Inr coursesResult"
  shows "upcoming = jsSort (compareDue parse)
           (mapValues (mergedMap (todoFeedEntries parse now (rangeEndOf now days) (data todoResult))
              (assignmentFeedEntries parse now (rangeEndOf now days) (getAssignments deps)
                 (data coursesResult))))"
  using listUpcoming_Inr [OF assms(1)] buildUpcoming_map [OF _ assms(2,3)] by auto

lemma merged_dueTime_not_NaN:
  assumes "u \<in> set (mapValues (mergedMap (todoFeedEntries parse now rangeEnd todos)
                        (assignmentFeedEntries parse now rangeEnd fetch courses)))"
  shows "dueTime parse u \<noteq> NaN"
proof -
  from assms set_values_mergedMap
  have "u \<in> set (todoFeedEntries parse now rangeEnd todos)
        \<or> u \<in> set (assignmentFeedEntries parse now rangeEnd fetch courses)" by blast
  then show ?thesis
  proof
    assume "u \<in> set (todoFeedEntries parse now rangeEnd todos)"
    from todoFeedEntries_set [OF this] todoEntry_dueTime show ?thesis by fastforce
  next
    assume "u \<in> set (assignmentFeedEntries parse now rangeEnd fetch courses)"
    from assignmentFeedEntries_set [OF this] assignmentEntry_dueTime show ?thesis by fastforce
  qed
qed

lemma dueTime_PosInf: "dueTime parse u = PosInf \<longleftrightarrow> \<not> truthy (due_at u)"
  by (auto simp: dueTime_def split: option.splits)

lemma jsLe_PosInf: "jsLe PosInf b \<Longrightarrow> b = PosInf"
  by (cases b) auto

lemma coursesLoop_skip_unauthorized:
  "coursesLoop parse now rangeEnd fetch courses st
     = coursesLoop parse now rangeEnd fetch (filter (\<lambda>c. \<not> unauthorizedCourse fetch c) courses) st"
proof (induction courses arbitrary: st)
  case Nil
  show ?case by simp
next
  case (Cons course rest)
  show ?case
  proof (cases "fetch (raw_id course)")
    case (Inl error)
    show ?thesis
    proof (cases "isAuthorizationFailure error")
      case True
      with Inl have "unauthorizedCourse fetch course" by (simp add: unauthorizedCourse_def)
      with Inl True Cons.IH [of st] show ?thesis by simp
    next
      case False
      with Inl have "\<not> unauthorizedCourse fetch course" by (simp add: unauthorizedCourse_def)
      with Inl False show ?thesis by simp
    qed
  next
    case (Inr res)
    then have "\<not> unauthorizedCourse fetch course" by (simp add: unauthorizedCourse_def)
    with Inr Cons.IH show ?thesis by simp
  qed
qed

lemma coursesLoop_harmless:
  "list_all (harmlessCourse fetch) courses \<Longrightarrow>
   \<exists>st'. coursesLoop parse now rangeEnd fetch courses st = Inr st'"
proof (induction courses arbitrary: st)
  case Nil
  show ?case by simp
next
  case (Cons course rest)
  then have rest: "list_all (harmlessCourse fetch) rest" by simp
  show ?case
  proof (cases "fetch (raw_id course)")
    case (Inl error)
    with Cons.prems have "isAuthorizationFailure error"
      by (simp add: harmlessCourse_def)
    with Inl Cons.IH [OF rest, of st] show ?thesis by simp
  next
    case (Inr res)
    with Cons.IH [OF rest] show ?thesis by simp
  qed
qed

lemma coursesLoop_abort:
  assumes "list_all (harmlessCourse fetch) earlier"
    and "fetch (raw_id course) = Inl error" and "\<not> isAuthorizationFailure error"
  shows "coursesLoop parse now rangeEnd fetch (earlier @ course # later) st = Inl error"
  using assms(1)
proof (induction earlier arbitrary: st)
  case Nil
  with assms(2,3) show ?case by simp
next
  case (Cons c cs)
  then show ?case
    by (cases "fetch (raw_id c)") (simp_all add: harmlessCourse_def)
qed

lemma pushMeta_data: "pushMeta (res\<lparr> data := d \<rparr>) st = pushMeta res st"
  by (simp add: pushMeta_def split: option.splits)

lemmas eval_upcoming = listUpcoming_def buildUpcoming_def sampleDeps_def failingDeps_def sampleResult_def
  sampleTodos_def sampleTodo_def sampleAssignment_def sampleCourse_def sampleParse_def sampleItem_def
  pushMeta_def todosLoop_def assignmentsLoop_def todoEntry_def assignmentEntry_def insertTodo_def
  insertAssignment_def mapHas_def mapValues_def isWithinRange_def truthy_def mapUpcomingFromAssignment_def
  computeSubmissionState_def isAuthorizationFailure_def canvasError_def STATUS_TO_CODE_def
  listUpcomingOutputSchema_parse_def upcomingItemSchema_def noUrlDeps_def
  STATUS_TO_MESSAGE_def jsSort_def compareDue_def dueTime_def lastOption_def Let_def
  todoFeedEntries_def assignmentFeedEntries_def rangeEndOf_def

lemma sample_listUpcoming: "listUpcoming sampleParse 0 None sampleDeps
  = Inr ([sampleItem 11 1 ''Quiz'' (Some ''1970-01-02T00:00:00Z'') Todo,
          sampleItem 12 1 ''Lab'' (Some ''1970-01-02T00:00:00Z'') Assignment,
          sampleItem 10 1 ''Essay'' (Some ''1970-01-03T00:00:00Z'') Todo,
          sampleItem 15 3 ''Exam'' (Some ''1970-01-03T00:00:00Z'') Assignment,
          sampleItem 13 1 ''Reading'' None Assignment],
         \<lparr> meta_status = Some 200, meta_requestId = None, meta_requestIds = [] \<rparr>)"
  by (simp add: eval_upcoming)

lemma sample_todoFeedEntries: "todoFeedEntries sampleParse 0 (rangeEndOf 0 None) sampleTodos
   = [sampleItem 10 1 ''Essay'' (Some ''1970-01-03T00:00:00Z'') Todo, sampleItem 11 1 ''Quiz'' (Some ''1970-01-02T00:00:00Z'') Todo]"
  by (simp add: eval_upcoming)

lemma sample_assignmentFeedEntries: "assignmentFeedEntries sampleParse 0 (rangeEndOf 0 None) (getAssignments sampleDeps) [sampleCourse 1, sampleCourse 2, sampleCourse 3]
   = [sampleItem 10 1 ''Essay (course copy)'' (Some ''1970-01-02T00:00:00Z'') Assignment,
      sampleItem 12 1 ''Lab'' (Some ''1970-01-02T00:00:00Z'') Assignment,
      sampleItem 13 1 ''Reading'' None Assignment,
      sampleItem 15 3 ''Exam'' (Some ''1970-01-03T00:00:00Z'') Assignment]"
  by (simp add: eval_upcoming)

lemma values_ids: "wfMap m \<Longrightarrow> map item_id (mapValues m) = map fst m"
  by (simp add: wfMap_def mapValues_def)

lemma list_all_jsSort: "list_all P (jsSort cmp xs) = list_all P xs"
  by (simp add: list_all_iff set_jsSort)

text \<open>The handler after a successful aggregation: the sort, then the schema check.\<close>

lemma listUpcoming_built:
  assumes "buildUpcoming parse now (rangeEndOf now days) deps = Inr st"
  shows "listUpcoming parse now days deps
         = (if list_all upcomingItemSchema (mapValues (upcomingMap st))
            then Inr (jsSort (compareDue parse) (mapValues (upcomingMap st)),
                      \<lparr> meta_status = lastOption (metaStatuses st),
                        meta_requestId = lastOption (metaRequestIds st),
                        meta_requestIds = metaRequestIds st \<rparr>)
            else Inl ZodErr)"
  using assms
  by (simp add: listUpcoming_def listUpcomingOutputSchema_parse_def rangeEndOf_def Let_def
      list_all_jsSort)

text \<open>
  C8: during the aggregation, an authorization failure while fetching one course's
  assignments makes the loop skip exactly that course: the outcome is that of the same run
  with the unauthorized courses removed from the course list. When every course either
  answers or fails with an authorization failure, the aggregation goes through to the end:
  the operation returns the sorted merge of the to-do entries and of the entries of the
  courses that answered, provided every merged entry passes the output schema (the handler
  ends with a \<^verbatim>\<open>ZodError\<close> otherwise, as it does without any failing course). A failure of
  any other kind (another error code, or an exception that is not an \<open>AppError\<close>) at a course
  aborts the whole operation with that error, whatever the earlier courses gave.
\<close>

theorem C8_authorization_failure_skips_course:
  fixes parse now days deps todoResult coursesResult
  defines "merged \<equiv> mapValues (mergedMap
             (todoFeedEntries parse now (rangeEndOf now days) (data todoResult))
             (assignmentFeedEntries parse now (rangeEndOf now days) (getAssignments deps)
                (data coursesResult)))"
  assumes "getTodo deps = Inr todoResult" and "getCourses deps = Inr coursesResult"
  shows "(list_all (harmlessCourse (getAssignments deps)) (data coursesResult)
            \<longrightarrow> (list_all upcomingItemSchema merged
                    \<longrightarrow> (\<exists>meta. listUpcoming parse now days deps
                                  = Inr (jsSort (compareDue parse) merged, meta)))
               \<and> (\<not> list_all upcomingItemSchema merged
                    \<longrightarrow> listUpcoming parse now days deps = Inl ZodErr))
       \<and> listUpcoming parse now days deps
           = listUpcoming parse now days
               (deps\<lparr> getCourses := Inr (coursesResult\<lparr> data :=
                  filter (\<lambda>c. \<not> unauthorizedCourse (getAssignments deps) c) (data coursesResult) \<rparr>) \<rparr>)
       \<and> (data coursesResult = earlier @ course # later
            \<and> list_all (harmlessCourse (getAssignments deps)) earlier
            \<and> getAssignments deps (raw_id course) = Inl error \<and> \<not> isAuthorizationFailure error
            \<longrightarrow> listUpcoming parse now days deps = Inl error)"
proof -
  let ?st0 = "pushMeta todoResult \<lparr> upcomingMap = [], metaRequestIds = [], metaStatuses = [] \<rparr>"
  let ?end = "rangeEndOf now days"
  let ?st1 = "pushMeta coursesResult
                (?st0\<lparr> upcomingMap := todosLoop parse now ?end (data todoResult) (upcomingMap ?st0) \<rparr>)"
  let ?loop = "\<lambda>courses. coursesLoop parse now ?end (getAssignments deps) courses ?st1"
  have build: "\<And>cs. buildUpcoming parse now ?end (deps\<lparr> getCourses := Inr (coursesResult\<lparr> data := cs \<rparr>) \<rparr>)
                 = ?loop cs"
    using assms(2) by (simp add: buildUpcoming_def Let_def pushMeta_data)
  have build0: "buildUpcoming parse now ?end deps = ?loop (data coursesResult)"
    using assms(2,3) by (simp add: buildUpcoming_def Let_def)
  have lu: "\<And>d. listUpcoming parse now days d
      = (case buildUpcoming parse now ?end d of
           Inl error \<Rightarrow> Inl error
         | Inr st \<Rightarrow>
             (case listUpcomingOutputSchema_parse (jsSort (compareDue parse) (mapValues (upcomingMap st))) of
                Inl error \<Rightarrow> Inl error
              | Inr payload \<Rightarrow>
                  Inr (payload,
                       \<lparr> meta_status = lastOption (metaStatuses st),
                         meta_requestId = lastOption (metaRequestIds st),
                         meta_requestIds = metaRequestIds st \<rparr>)))"
    by (simp add: listUpcoming_def rangeEndOf_def Let_def split: sum.splits)
  have a: "list_all (harmlessCourse (getAssignments deps)) (data coursesResult)
            \<longrightarrow> (list_all upcomingItemSchema merged
                    \<longrightarrow> (\<exists>meta. listUpcoming parse now days deps
                                  = Inr (jsSort (compareDue parse) merged, meta)))
               \<and> (\<not> list_all upcomingItemSchema merged
                    \<longrightarrow> listUpcoming parse now days deps = Inl ZodErr)"
  proof
    assume "list_all (harmlessCourse (getAssignments deps)) (data coursesResult)"
    from coursesLoop_harmless [OF this] obtain st' where "?loop (data coursesResult) = Inr st'"
      by blast
    with build0 have b: "buildUpcoming parse now ?end deps = Inr st'"
      by simp
    from buildUpcoming_map [OF b assms(2,3)] have m: "mapValues (upcomingMap st') = merged"
      by (simp add: merged_def)
    from listUpcoming_built [OF b]
    show "(list_all upcomingItemSchema merged
             \<longrightarrow> (\<exists>meta. listUpcoming parse now days deps
                           = Inr (jsSort (compareDue parse) merged, meta)))
          \<and> (\<not> list_all upcomingItemSchema merged
               \<longrightarrow> listUpcoming parse now days deps = Inl ZodErr)"
      by (simp add: m)
  qed
  have b: "listUpcoming parse now days deps
           = listUpcoming parse now days
               (deps\<lparr> getCourses := Inr (coursesResult\<lparr> data :=
                  filter (\<lambda>c. \<not> unauthorizedCourse (getAssignments deps) c) (data coursesResult) \<rparr>) \<rparr>)"
    using coursesLoop_skip_unauthorized [of parse now ?end "getAssignments deps" "data coursesResult" ?st1]
    by (simp only: lu build build0)
  have c: "data coursesResult = earlier @ course # later
            \<and> list_all (harmlessCourse (getAssignments deps)) earlier
            \<and> getAssignments deps (raw_id course) = Inl error \<and> \<not> isAuthorizationFailure error
            \<longrightarrow> listUpcoming parse now days deps = Inl error"
    using coursesLoop_abort [of "getAssignments deps" earlier course error parse now ?end later ?st1]
    by (auto simp: lu build0)
  from a b c show ?thesis by (intro conjI)
qed

text \<open>
  At the sample feeds course 2 is not accessible and the operation returns the entries of
  the to-do feed and of courses 1 and 3, the same as without course 2. When course 3 lists
  an assignment without \<^verbatim>\<open>html_url\<close> the schema check fails; when its fetch fails with a
  503 the operation aborts with that error.
\<close>

theorem C8_authorization_failure_skips_course_witness:
  "getTodo sampleDeps = Inr (sampleResult sampleTodos)
   \<and> getCourses sampleDeps = Inr (sampleResult [sampleCourse 1, sampleCourse 2, sampleCourse 3])
   \<and> getAssignments sampleDeps 2 = Inl (AppErr (canvasError 403 None None))
   \<and> isAuthorizationFailure (AppErr (canvasError 403 None None))
   \<and> list_all (harmlessCourse (getAssignments sampleDeps)) [sampleCourse 1, sampleCourse 2, sampleCourse 3]
   \<and> list_all upcomingItemSchema
        (mapValues (mergedMap (todoFeedEntries sampleParse 0 (rangeEndOf 0 None) sampleTodos)
           (assignmentFeedEntries sampleParse 0 (rangeEndOf 0 None) (getAssignments sampleDeps)
              [sampleCourse 1, sampleCourse 2, sampleCourse 3])))
   \<and> listUpcoming sampleParse 0 None sampleDeps
       = Inr ([sampleItem 11 1 ''Quiz'' (Some ''1970-01-02T00:00:00Z'') Todo,
               sampleItem 12 1 ''Lab'' (Some ''1970-01-02T00:00:00Z'') Assignment,
               sampleItem 10 1 ''Essay'' (Some ''1970-01-03T00:00:00Z'') Todo,
               sampleItem 15 3 ''Exam'' (Some ''1970-01-03T00:00:00Z'') Assignment,
               sampleItem 13 1 ''Reading'' None Assignment],
              \<lparr> meta_status = Some 200, meta_requestId = None, meta_requestIds = [] \<rparr>)
   \<and> fst (projr (listUpcoming sampleParse 0 None sampleDeps))
       = jsSort (compareDue sampleParse)
           (mapValues (mergedMap (todoFeedEntries sampleParse 0 (rangeEndOf 0 None) sampleTodos)
              (assignmentFeedEntries sampleParse 0 (rangeEndOf 0 None) (getAssignments sampleDeps)
                 [sampleCourse 1, sampleCourse 2, sampleCourse 3])))
   \<and> listUpcoming sampleParse 0 None sampleDeps
       = listUpcoming sampleParse 0 None
           (sampleDeps\<lparr> getCourses := Inr (sampleResult [sampleCourse 1, sampleCourse 3]) \<rparr>)
   \<and> list_all (harmlessCourse (getAssignments noUrlDeps)) [sampleCourse 1, sampleCourse 2, sampleCourse 3]
   \<and> \<not> list_all upcomingItemSchema
        (mapValues (mergedMap (todoFeedEntries sampleParse 0 (rangeEndOf 0 None) sampleTodos)
           (assignmentFeedEntries sampleParse 0 (rangeEndOf 0 None) (getAssignments noUrlDeps)
              [sampleCourse 1, sampleCourse 2, sampleCourse 3])))
   \<and> listUpcoming sampleParse 0 None noUrlDeps = Inl ZodErr
   \<and> getCourses failingDeps = Inr (sampleResult ([sampleCourse 1, sampleCourse 2] @ sampleCourse 3 # []))
   \<and> list_all (harmlessCourse (getAssignments failingDeps)) [sampleCourse 1, sampleCourse 2]
   \<and> getAssignments failingDeps (raw_id (sampleCourse 3)) = Inl (AppErr (canvasError 503 None None))
   \<and> \<not> isAuthorizationFailure (AppErr (canvasError 503 None None))
   \<and> listUpcoming sampleParse 0 None failingDeps = Inl (AppErr (canvasError 503 None None))"
proof -
  let ?cs = "[sampleCourse 1, sampleCourse 2, sampleCourse 3]"
  let ?TE = "todoFeedEntries sampleParse 0 (rangeEndOf 0 None) sampleTodos"
  let ?AE = "assignmentFeedEntries sampleParse 0 (rangeEndOf 0 None) (getAssignments sampleDeps) ?cs"
  let ?AN = "assignmentFeedEntries sampleParse 0 (rangeEndOf 0 None) (getAssignments noUrlDeps) ?cs"
  have t: "getTodo sampleDeps = Inr (sampleResult sampleTodos)"
    and c: "getCourses sampleDeps = Inr (sampleResult ?cs)"
    and tf: "getTodo failingDeps = Inr (sampleResult sampleTodos)"
    and cf: "getCourses failingDeps = Inr (sampleResult ?cs)"
    and tn: "getTodo noUrlDeps = Inr (sampleResult sampleTodos)"
    and cn: "getCourses noUrlDeps = Inr (sampleResult ?cs)"
    by (simp_all add: sampleDeps_def failingDeps_def noUrlDeps_def)
  have f2: "getAssignments sampleDeps 2 = Inl (AppErr (canvasError 403 None None))"
    and f3: "getAssignments failingDeps (raw_id (sampleCourse 3)) = Inl (AppErr (canvasError 503 None None))"
    by (simp_all add: sampleDeps_def failingDeps_def sampleCourse_def)
  have au: "isAuthorizationFailure (AppErr (canvasError 403 None None))"
    and na: "\<not> isAuthorizationFailure (AppErr (canvasError 503 None None))"
    by (simp_all add: isAuthorizationFailure_def canvasError_def STATUS_TO_CODE_def)
  have h: "list_all (harmlessCourse (getAssignments sampleDeps)) ?cs"
    and hf: "list_all (harmlessCourse (getAssignments failingDeps)) [sampleCourse 1, sampleCourse 2]"
    and hn: "list_all (harmlessCourse (getAssignments noUrlDeps)) ?cs"
    using au by (simp_all add: harmlessCourse_def sampleDeps_def failingDeps_def noUrlDeps_def
        sampleCourse_def)
  have flt: "filter (\<lambda>c. \<not> unauthorizedCourse (getAssignments sampleDeps) c) ?cs
             = [sampleCourse 1, sampleCourse 3]"
    using au by (simp add: unauthorizedCourse_def sampleDeps_def sampleCourse_def)
  have d: "data (sampleResult ?cs) = [sampleCourse 1, sampleCourse 2] @ sampleCourse 3 # []"
    by (simp add: sampleResult_def)
  have upd: "sampleResult ?cs\<lparr> data := [sampleCourse 1, sampleCourse 3] \<rparr>
             = sampleResult [sampleCourse 1, sampleCourse 3]"
    by (simp add: sampleResult_def)
  have dd: "data (sampleResult ?cs) = ?cs" and dt: "data (sampleResult sampleTodos) = sampleTodos"
    by (simp_all add: sampleResult_def)
  have ok: "list_all upcomingItemSchema (mapValues (mergedMap ?TE ?AE))"
    by (simp add: sample_todoFeedEntries sample_assignmentFeedEntries mergedMap_def
        insertTodo_def insertAssignment_def mapHas_def mapValues_def sampleItem_def
        upcomingItemSchema_def)
  have an: "?AN = [sampleItem 10 1 ''Essay (course copy)'' (Some ''1970-01-02T00:00:00Z'') Assignment,
      sampleItem 12 1 ''Lab'' (Some ''1970-01-02T00:00:00Z'') Assignment,
      sampleItem 13 1 ''Reading'' None Assignment,
      (sampleItem 15 3 ''Exam'' (Some ''1970-01-03T00:00:00Z'') Assignment)\<lparr> html_url := None \<rparr>]"
    by (simp add: eval_upcoming)
  have bad: "\<not> list_all upcomingItemSchema (mapValues (mergedMap ?TE ?AN))"
    by (simp add: sample_todoFeedEntries an mergedMap_def
        insertTodo_def insertAssignment_def mapHas_def mapValues_def sampleItem_def
        upcomingItemSchema_def)
  note k = C8_authorization_failure_skips_course [OF t c,
             where parse = sampleParse and now = 0 and days = None, unfolded dd dt]
  from k h ok obtain meta where
    v0: "listUpcoming sampleParse 0 None sampleDeps
         = Inr (jsSort (compareDue sampleParse) (mapValues (mergedMap ?TE ?AE)), meta)"
    by blast
  then have v1: "fst (projr (listUpcoming sampleParse 0 None sampleDeps))
         = jsSort (compareDue sampleParse) (mapValues (mergedMap ?TE ?AE))"
    by simp
  have skip: "listUpcoming sampleParse 0 None sampleDeps
       = listUpcoming sampleParse 0 None
           (sampleDeps\<lparr> getCourses := Inr (sampleResult [sampleCourse 1, sampleCourse 3]) \<rparr>)"
    using C8_authorization_failure_skips_course [OF t c,
            where parse = sampleParse and now = 0 and days = None, THEN conjunct2, THEN conjunct1]
    unfolding dd flt upd .
  from C8_authorization_failure_skips_course [OF tn cn,
         where parse = sampleParse and now = 0 and days = None, unfolded dd dt] hn bad
  have zod: "listUpcoming sampleParse 0 None noUrlDeps = Inl ZodErr"
    by blast
  from C8_authorization_failure_skips_course [OF tf cf,
         where earlier = "[sampleCourse 1, sampleCourse 2]" and course = "sampleCourse 3"
           and later = "[]" and error = "AppErr (canvasError 503 None None)"
           and parse = sampleParse and now = 0 and days = None] d hf f3 na
  have abort: "listUpcoming sampleParse 0 None failingDeps = Inl (AppErr (canvasError 503 None None))"
    by blast
  from t c cf f2 au h ok sample_listUpcoming v1 skip hn bad zod hf f3 na abort
  show ?thesis by simp
qed

lemma mset_singleton_list: "mset xs = {#v#} \<Longrightarrow> xs = [v]"
  by (cases xs) auto

text \<open>
  C2: an id is produced by a feed when an entry with that id passes the feed's filter and
  reaches the map. For every id produced by both feeds the result holds exactly one entry
  with that id; it is the entry of the to-do feed (the last one with that id, if the feed
  repeats the id), with its data and the provenance \<open>Todo\<close>: no assignment entry replaces it,
  for every order of the entries and of the courses. No id occurs twice in the result.
\<close>

theorem C2_todo_entry_wins:
  assumes "listUpcoming parse now days deps = Inr (upcoming, meta)"
    and "getTodo deps = Inr todoResult" and "getCourses deps = Inr coursesResult"
    and "i \<in> item_id ` set (todoFeedEntries parse now (rangeEndOf now days) (data todoResult))"
    and "i \<in> item_id ` set (assignmentFeedEntries parse now (rangeEndOf now days)
                               (getAssignments deps) (data coursesResult))"
  shows "filter (\<lambda>u. item_id u = i) upcoming
           = [last (filter (\<lambda>u. item_id u = i)
                      (todoFeedEntries parse now (rangeEndOf now days) (data todoResult)))]
       \<and> last (filter (\<lambda>u. item_id u = i)
                 (todoFeedEntries parse now (rangeEndOf now days) (data todoResult)))
           \<in> set (todoFeedEntries parse now (rangeEndOf now days) (data todoResult))
       \<and> source (last (filter (\<lambda>u. item_id u = i)
                 (todoFeedEntries parse now (rangeEndOf now days) (data todoResult)))) = Todo
       \<and> distinct (map item_id upcoming)"
proof -
  let ?TE = "todoFeedEntries parse now (rangeEndOf now days) (data todoResult)"
  let ?AE = "assignmentFeedEntries parse now (rangeEndOf now days) (getAssignments deps) (data coursesResult)"
  let ?M = "mergedMap ?TE ?AE"
  let ?v = "last (filter (\<lambda>u. item_id u = i) ?TE)"
  have up: "upcoming = jsSort (compareDue parse) (mapValues ?M)"
    by (rule listUpcoming_sorted_values [OF assms(1-3)])
  have ne: "filter (\<lambda>u. item_id u = i) ?TE \<noteq> []"
    using assms(4) by (simp add: filter_id_nonempty)
  then have "map_of ?M i = Some ?v"
    by (simp add: map_of_mergedMap)
  then have vals: "filter (\<lambda>u. item_id u = i) (mapValues ?M) = [?v]"
    by (simp add: wfMap_values_by_id [OF wfMap_mergedMap])
  have "mset (filter (\<lambda>u. item_id u = i) upcoming) = mset (filter (\<lambda>u. item_id u = i) (mapValues ?M))"
    by (simp add: up mset_jsSort)
  then have "mset (filter (\<lambda>u. item_id u = i) upcoming) = {#?v#}"
    by (simp only: vals) simp
  then have one: "filter (\<lambda>u. item_id u = i) upcoming = [?v]"
    by (rule mset_singleton_list)
  have mem: "?v \<in> set ?TE"
    by (rule last_filter_in_set [OF ne])
  from todoFeedEntries_set [OF mem] have src: "source ?v = Todo"
    by (auto dest: todoEntry_source)
  have "distinct (map item_id (mapValues ?M))"
    using wfMap_mergedMap [of ?TE ?AE] by (simp add: values_ids) (simp add: wfMap_def)
  moreover have "mset (map item_id upcoming) = mset (map item_id (mapValues ?M))"
    by (simp add: up mset_jsSort)
  ultimately have "distinct (map item_id upcoming)"
    by (metis mset_eq_imp_distinct_iff)
  with one mem src show ?thesis by simp
qed

theorem C2_todo_entry_wins_witness:
  "listUpcoming sampleParse 0 None sampleDeps
     = Inr ([sampleItem 11 1 ''Quiz'' (Some ''1970-01-02T00:00:00Z'') Todo,
             sampleItem 12 1 ''Lab'' (Some ''1970-01-02T00:00:00Z'') Assignment,
             sampleItem 10 1 ''Essay'' (Some ''1970-01-03T00:00:00Z'') Todo,
             sampleItem 15 3 ''Exam'' (Some ''1970-01-03T00:00:00Z'') Assignment,
             sampleItem 13 1 ''Reading'' None Assignment],
            \<lparr> meta_status = Some 200, meta_requestId = None, meta_requestIds = [] \<rparr>)
   \<and> sampleItem 10 1 ''Essay'' (Some ''1970-01-03T00:00:00Z'') Todo
       \<in> set (todoFeedEntries sampleParse 0 (rangeEndOf 0 None) sampleTodos)
   \<and> sampleItem 10 1 ''Essay (course copy)'' (Some ''1970-01-02T00:00:00Z'') Assignment
       \<in> set (assignmentFeedEntries sampleParse 0 (rangeEndOf 0 None) (getAssignments sampleDeps)
                 [sampleCourse 1, sampleCourse 2, sampleCourse 3])
   \<and> filter (\<lambda>u. item_id u = 10)
        [sampleItem 11 1 ''Quiz'' (Some ''1970-01-02T00:00:00Z'') Todo,
         sampleItem 12 1 ''Lab'' (Some ''1970-01-02T00:00:00Z'') Assignment,
         sampleItem 10 1 ''Essay'' (Some ''1970-01-03T00:00:00Z'') Todo,
         sampleItem 15 3 ''Exam'' (Some ''1970-01-03T00:00:00Z'') Assignment,
         sampleItem 13 1 ''Reading'' None Assignment]
       = [last (filter (\<lambda>u. item_id u = 10)
                  (todoFeedEntries sampleParse 0 (rangeEndOf 0 None) sampleTodos))]
   \<and> last (filter (\<lambda>u. item_id u = 10)
             (todoFeedEntries sampleParse 0 (rangeEndOf 0 None) sampleTodos))
       = sampleItem 10 1 ''Essay'' (Some ''1970-01-03T00:00:00Z'') Todo"
proof -
  let ?cs = "[sampleCourse 1, sampleCourse 2, sampleCourse 3]"
  let ?TE = "todoFeedEntries sampleParse 0 (rangeEndOf 0 None) sampleTodos"
  let ?AE = "assignmentFeedEntries sampleParse 0 (rangeEndOf 0 None) (getAssignments sampleDeps) ?cs"
  have t: "getTodo sampleDeps = Inr (sampleResult sampleTodos)"
    and c: "getCourses sampleDeps = Inr (sampleResult ?cs)"
    by (simp_all add: sampleDeps_def)
  have dt: "data (sampleResult sampleTodos) = sampleTodos" and dc: "data (sampleResult ?cs) = ?cs"
    by (simp_all add: sampleResult_def)
  have m1: "sampleItem 10 1 ''Essay'' (Some ''1970-01-03T00:00:00Z'') Todo \<in> set ?TE"
    by (simp add: sample_todoFeedEntries)
  have m2: "sampleItem 10 1 ''Essay (course copy)'' (Some ''1970-01-02T00:00:00Z'') Assignment \<in> set ?AE"
    by (simp add: sample_assignmentFeedEntries)
  have i1: "10 \<in> item_id ` set ?TE"
    using m1 by (force simp: sampleItem_def)
  have i2: "10 \<in> item_id ` set ?AE"
    using m2 by (force simp: sampleItem_def)
  have l: "last (filter (\<lambda>u. item_id u = 10) ?TE)
           = sampleItem 10 1 ''Essay'' (Some ''1970-01-03T00:00:00Z'') Todo"
    by (simp add: sample_todoFeedEntries sampleItem_def)
  from C2_todo_entry_wins [OF sample_listUpcoming t c, unfolded dt dc, OF i1 i2]
    sample_listUpcoming m1 m2 l
  show ?thesis by simp
qed

text \<open>
  C6: the result is sorted ascending by due time, an absent (null or empty) due date
  counting as \<open>+\<infinity>\<close>, so that every entry after a date-less one is date-less. It is a
  permutation of the map's values in which entries of equal due time keep the map's
  insertion order. That order is: the ids of the to-do entries at their first occurrence
  (each with the data of its last to-do entry), then the ids of the assignment entries that
  no to-do entry has, at their first occurrence; when no feed repeats an id it is the to-do
  entries in their order followed by the remaining assignment entries in their order.
\<close>

theorem C6_sorted_by_due_date_ties_in_insertion_order:
  fixes parse now days deps todoResult coursesResult
  defines "TE \<equiv> todoFeedEntries parse now (rangeEndOf now days) (data todoResult)"
    and "AE \<equiv> assignmentFeedEntries parse now (rangeEndOf now days) (getAssignments deps)
                 (data coursesResult)"
  assumes "listUpcoming parse now days deps = Inr (upcoming, meta)"
    and "getTodo deps = Inr todoResult" and "getCourses deps = Inr coursesResult"
  shows "sorted_wrt (\<lambda>a b. jsLe (dueTime parse a) (dueTime parse b)) upcoming
       \<and> sorted_wrt (\<lambda>a b. \<not> truthy (due_at a) \<longrightarrow> \<not> truthy (due_at b)) upcoming
       \<and> mset upcoming = mset (mapValues (mergedMap TE AE))
       \<and> (\<forall>t. filter (\<lambda>u. dueTime parse u = t) upcoming
                = filter (\<lambda>u. dueTime parse u = t) (mapValues (mergedMap TE AE)))
       \<and> mapValues (mergedMap TE AE)
           = map (\<lambda>k. last (filter (\<lambda>u. item_id u = k) TE)) (firstOccurrences (map item_id TE))
             @ map (\<lambda>k. hd (filter (\<lambda>u. item_id u = k) AE))
                 (firstOccurrences (filter (\<lambda>k. k \<notin> item_id ` set TE) (map item_id AE)))
       \<and> (distinct (map item_id TE) \<and> distinct (map item_id AE)
            \<longrightarrow> mapValues (mergedMap TE AE) = TE @ filter (\<lambda>u. item_id u \<notin> item_id ` set TE) AE)"
proof -
  let ?vals = "mapValues (mergedMap TE AE)"
  have up: "upcoming = jsSort (\<lambda>a b. jsSub (dueTime parse a) (dueTime parse b)) ?vals"
    using listUpcoming_sorted_values [OF assms(3-5)] by (simp add: TE_def AE_def compareDue_eq)
  have nn: "\<forall>z \<in> set ?vals. dueTime parse z \<noteq> NaN"
    using merged_dueTime_not_NaN by (auto simp: TE_def AE_def)
  have s1: "sorted_wrt (\<lambda>a b. jsLe (dueTime parse a) (dueTime parse b)) upcoming"
    unfolding up by (rule sorted_jsSort [OF nn])
  have s2: "sorted_wrt (\<lambda>a b. \<not> truthy (due_at a) \<longrightarrow> \<not> truthy (due_at b)) upcoming"
  proof (rule sorted_wrt_mono_rel [OF _ s1])
    fix a b assume le: "jsLe (dueTime parse a) (dueTime parse b)"
    show "\<not> truthy (due_at a) \<longrightarrow> \<not> truthy (due_at b)"
    proof
      assume "\<not> truthy (due_at a)"
      then have "dueTime parse a = PosInf" by (simp add: dueTime_PosInf)
      with le have "dueTime parse b = PosInf" by (simp add: jsLe_PosInf)
      then show "\<not> truthy (due_at b)" by (simp add: dueTime_PosInf)
    qed
  qed
  have m: "mset upcoming = mset ?vals"
    by (simp add: up mset_jsSort)
  have st: "\<forall>t. filter (\<lambda>u. dueTime parse u = t) upcoming = filter (\<lambda>u. dueTime parse u = t) ?vals"
    unfolding up using filter_jsSort [OF nn] by blast
  from s1 s2 m st values_mergedMap [of TE AE] values_mergedMap_distinct [of TE AE]
  show ?thesis by blast
qed

theorem C6_sorted_by_due_date_ties_in_insertion_order_witness:
  "listUpcoming sampleParse 0 None sampleDeps
     = Inr ([sampleItem 11 1 ''Quiz'' (Some ''1970-01-02T00:00:00Z'') Todo,
             sampleItem 12 1 ''Lab'' (Some ''1970-01-02T00:00:00Z'') Assignment,
             sampleItem 10 1 ''Essay'' (Some ''1970-01-03T00:00:00Z'') Todo,
             sampleItem 15 3 ''Exam'' (Some ''1970-01-03T00:00:00Z'') Assignment,
             sampleItem 13 1 ''Reading'' None Assignment],
            \<lparr> meta_status = Some 200, meta_requestId = None, meta_requestIds = [] \<rparr>)
   \<and> distinct (map item_id (todoFeedEntries sampleParse 0 (rangeEndOf 0 None) sampleTodos))
   \<and> distinct (map item_id (assignmentFeedEntries sampleParse 0 (rangeEndOf 0 None)
                   (getAssignments sampleDeps) [sampleCourse 1, sampleCourse 2, sampleCourse 3]))
   \<and> mapValues (mergedMap (todoFeedEntries sampleParse 0 (rangeEndOf 0 None) sampleTodos)
                  (assignmentFeedEntries sampleParse 0 (rangeEndOf 0 None)
                     (getAssignments sampleDeps) [sampleCourse 1, sampleCourse 2, sampleCourse 3]))
       = [sampleItem 10 1 ''Essay'' (Some ''1970-01-03T00:00:00Z'') Todo,
          sampleItem 11 1 ''Quiz'' (Some ''1970-01-02T00:00:00Z'') Todo,
          sampleItem 12 1 ''Lab'' (Some ''1970-01-02T00:00:00Z'') Assignment,
          sampleItem 13 1 ''Reading'' None Assignment,
          sampleItem 15 3 ''Exam'' (Some ''1970-01-03T00:00:00Z'') Assignment]
   \<and> filter (\<lambda>u. dueTime sampleParse u = Num 86400000)
        [sampleItem 11 1 ''Quiz'' (Some ''1970-01-02T00:00:00Z'') Todo,
         sampleItem 12 1 ''Lab'' (Some ''1970-01-02T00:00:00Z'') Assignment,
         sampleItem 10 1 ''Essay'' (Some ''1970-01-03T00:00:00Z'') Todo,
         sampleItem 15 3 ''Exam'' (Some ''1970-01-03T00:00:00Z'') Assignment,
         sampleItem 13 1 ''Reading'' None Assignment]
       = [sampleItem 11 1 ''Quiz'' (Some ''1970-01-02T00:00:00Z'') Todo,
          sampleItem 12 1 ''Lab'' (Some ''1970-01-02T00:00:00Z'') Assignment]
   \<and> sorted_wrt (\<lambda>a b. jsLe (dueTime sampleParse a) (dueTime sampleParse b))
        [sampleItem 11 1 ''Quiz'' (Some ''1970-01-02T00:00:00Z'') Todo,
         sampleItem 12 1 ''Lab'' (Some ''1970-01-02T00:00:00Z'') Assignment,
         sampleItem 10 1 ''Essay'' (Some ''1970-01-03T00:00:00Z'') Todo,
         sampleItem 15 3 ''Exam'' (Some ''1970-01-03T00:00:00Z'') Assignment,
         sampleItem 13 1 ''Reading'' None Assignment]"
proof -
  let ?cs = "[sampleCourse 1, sampleCourse 2, sampleCourse 3]"
  let ?TE = "todoFeedEntries sampleParse 0 (rangeEndOf 0 None) sampleTodos"
  let ?AE = "assignmentFeedEntries sampleParse 0 (rangeEndOf 0 None) (getAssignments sampleDeps) ?cs"
  have t: "getTodo sampleDeps = Inr (sampleResult sampleTodos)"
    and c: "getCourses sampleDeps = Inr (sampleResult ?cs)"
    by (simp_all add: sampleDeps_def)
  have dt: "data (sampleResult sampleTodos) = sampleTodos" and dc: "data (sampleResult ?cs) = ?cs"
    by (simp_all add: sampleResult_def)
  have d1: "distinct (map item_id ?TE)" and d2: "distinct (map item_id ?AE)"
    by (simp_all add: sample_todoFeedEntries sample_assignmentFeedEntries sampleItem_def)
  have f: "?TE @ filter (\<lambda>u. item_id u \<notin> item_id ` set ?TE) ?AE
       = [sampleItem 10 1 ''Essay'' (Some ''1970-01-03T00:00:00Z'') Todo,
          sampleItem 11 1 ''Quiz'' (Some ''1970-01-02T00:00:00Z'') Todo,
          sampleItem 12 1 ''Lab'' (Some ''1970-01-02T00:00:00Z'') Assignment,
          sampleItem 13 1 ''Reading'' None Assignment,
          sampleItem 15 3 ''Exam'' (Some ''1970-01-03T00:00:00Z'') Assignment]"
    by (simp add: sample_todoFeedEntries sample_assignmentFeedEntries sampleItem_def)
  note k = C6_sorted_by_due_date_ties_in_insertion_order
             [OF sample_listUpcoming t c, unfolded dt dc]
  from k d1 d2 have v: "mapValues (mergedMap ?TE ?AE) = ?TE @ filter (\<lambda>u. item_id u \<notin> item_id ` set ?TE) ?AE"
    by blast
  have tie: "filter (\<lambda>u. dueTime sampleParse u = Num 86400000) (?TE @ filter (\<lambda>u. item_id u \<notin> item_id ` set ?TE) ?AE)
       = [sampleItem 11 1 ''Quiz'' (Some ''1970-01-02T00:00:00Z'') Todo,
          sampleItem 12 1 ''Lab'' (Some ''1970-01-02T00:00:00Z'') Assignment]"
    unfolding f by (simp add: dueTime_def truthy_def sampleItem_def sampleParse_def)
  from k have "filter (\<lambda>u. dueTime sampleParse u = Num 86400000)
        [sampleItem 11 1 ''Quiz'' (Some ''1970-01-02T00:00:00Z'') Todo,
         sampleItem 12 1 ''Lab'' (Some ''1970-01-02T00:00:00Z'') Assignment,
         sampleItem 10 1 ''Essay'' (Some ''1970-01-03T00:00:00Z'') Todo,
         sampleItem 15 3 ''Exam'' (Some ''1970-01-03T00:00:00Z'') Assignment,
         sampleItem 13 1 ''Reading'' None Assignment]
       = filter (\<lambda>u. dueTime sampleParse u = Num 86400000) (mapValues (mergedMap ?TE ?AE))"
    by blast
  with k v f tie d1 d2 sample_listUpcoming show ?thesis by simp
qed

end
